theory Spec2Isabelle
  imports Complex_Main "HOL-Library.Char_ord" "HOL-Library.List_Lexorder"
    "HOL-Library.Product_Lexorder" "HOL-Library.AList"
begin

section \<open>Go string primitives used by the schema parser\<close>

text \<open>
  Go strings are byte sequences; they are modelled as \<open>string\<close> (a list of 8-bit
  characters).  \<open>strings.HasPrefix\<close>, \<open>strings.TrimPrefix\<close>, \<open>strings.HasSuffix\<close> and
  \<open>strings.TrimSuffix\<close> work on bytes and are modelled exactly.
\<close>

definition HasPrefix :: "string \<Rightarrow> string \<Rightarrow> bool" where
  "HasPrefix s p = (take (length p) s = p)"

definition TrimPrefix :: "string \<Rightarrow> string \<Rightarrow> string" where
  "TrimPrefix s p = (if HasPrefix s p then drop (length p) s else s)"

definition HasSuffix :: "string \<Rightarrow> string \<Rightarrow> bool" where
  "HasSuffix s p = (length p \<le> length s \<and> drop (length s - length p) s = p)"

definition TrimSuffix :: "string \<Rightarrow> string \<Rightarrow> string" where
  "TrimSuffix s p = (if HasSuffix s p then take (length s - length p) s else s)"

section \<open>Entity name normalizer\<close>

text \<open>
  \<open>normalizeEntityName\<close>: the prefixes are trimmed one after the other, then the
  suffixes one after the other (each at most once, in the order of the source's
  tables), then one trailing \<open>s\<close>; an empty remainder falls back to the raw name.
\<close>

definition suffixes :: "string list" where
  "suffixes =
    [''Req'', ''Request'', ''Res'', ''Response'', ''Input'', ''Output'',
     ''Create'', ''Update'', ''Add'', ''Edit'', ''Delete'',
     ''Item'', ''Detail'', ''List'', ''Get'', ''Query'', ''Form'',
     ''Dto'', ''DTO'']"

definition prefixes :: "string list" where
  "prefixes = [''V1'', ''V2'', ''Api'']"

definition stripAffixes :: "string \<Rightarrow> string" where
  "stripAffixes name =
     TrimSuffix (foldl TrimSuffix (foldl TrimPrefix name prefixes) suffixes) ''s''"

definition normalizeEntityName :: "string \<Rightarrow> string" where
  "normalizeEntityName name =
     (let cleaned = stripAffixes name in if cleaned = [] then name else cleaned)"

section \<open>Data model\<close>

text \<open>
  The structs of the parser.  Field names carry a prefix per struct because several
  structs share field names (\<open>Source\<close>, \<open>Description\<close>, \<open>Validation\<close>).
  A Go pointer that may be \<open>nil\<close> is an \<open>option\<close>.  Go's \<open>int\<close> bounds are only
  compared, never computed with, so they are \<open>int\<close>.  The \<open>float64\<close> bounds come from
  decoded JSON numbers (finite, never NaN) and are only compared by value, so they are
  modelled by their numeric value in \<open>real\<close>; the sign of a zero is not represented.
\<close>

record FieldConstraints =
  fc_Required :: bool
  fc_Nullable :: bool
  fc_MinLength :: "int option"
  fc_MaxLength :: "int option"
  fc_Minimum :: "real option"
  fc_Maximum :: "real option"
  fc_Pattern :: string
  fc_Format :: string
  fc_Enum :: "string list"

record ColumnInfo =
  col_Name :: string
  col_JSONName :: string
  col_Type :: string
  col_Validation :: string
  col_Description :: string
  col_Additional :: string
  col_Constraints :: "FieldConstraints option"
  col_Ref :: string
  col_IsArray :: bool
  col_Source :: string

record RelationNode =
  rel_FieldName :: string
  rel_TargetStruct :: string
  rel_IsCollection :: bool
  rel_TargetKey :: string
  rel_SourceKey :: string
  rel_Validation :: string
  rel_Description :: string

record OperationInfo =
  op_Method :: string
  op_Path :: string
  op_OperationID :: string
  op_Summary :: string
  op_Tags :: "string list"
  op_RequestSchema :: string
  op_ResponseSchema :: string
  op_Source :: string

record TableMetadata =
  tm_StructName :: string
  tm_NormalizedName :: string
  tm_Source :: string
  tm_Columns :: "ColumnInfo list"
  tm_Relations :: "RelationNode option list"
  tm_Operations :: "OperationInfo list"

text \<open>
  \<open>SchemaMap\<close> is a Go map from key to record.  It is an association list whose keys
  are distinct; the order of the list stands for the order in which Go happens to
  iterate the map, which the language leaves unspecified.
\<close>

type_synonym SchemaMap = "(string \<times> TableMetadata) list"

section \<open>Constraint merge\<close>

definition constraintsEmpty :: "FieldConstraints option \<Rightarrow> bool" where
  "constraintsEmpty c =
     (case c of
        None \<Rightarrow> True
      | Some c \<Rightarrow>
          if fc_Required c \<or> fc_Nullable c then False
          else if fc_MinLength c \<noteq> None \<or> fc_MaxLength c \<noteq> None
                  \<or> fc_Minimum c \<noteq> None \<or> fc_Maximum c \<noteq> None then False
          else if fc_Pattern c \<noteq> [] \<or> fc_Format c \<noteq> [] then False
          else if length (fc_Enum c) > 0 then False
          else True)"

definition pickIntPtrMax :: "int option \<Rightarrow> int option \<Rightarrow> int option" where
  "pickIntPtrMax a b =
     (case a of None \<Rightarrow> b
      | Some x \<Rightarrow> (case b of None \<Rightarrow> a | Some y \<Rightarrow> if y > x then b else a))"

definition pickIntPtrMin :: "int option \<Rightarrow> int option \<Rightarrow> int option" where
  "pickIntPtrMin a b =
     (case a of None \<Rightarrow> b
      | Some x \<Rightarrow> (case b of None \<Rightarrow> a | Some y \<Rightarrow> if y < x then b else a))"

definition pickFloatPtrMax :: "real option \<Rightarrow> real option \<Rightarrow> real option" where
  "pickFloatPtrMax a b =
     (case a of None \<Rightarrow> b
      | Some x \<Rightarrow> (case b of None \<Rightarrow> a | Some y \<Rightarrow> if y > x then b else a))"

definition pickFloatPtrMin :: "real option \<Rightarrow> real option \<Rightarrow> real option" where
  "pickFloatPtrMin a b =
     (case a of None \<Rightarrow> b
      | Some x \<Rightarrow> (case b of None \<Rightarrow> a | Some y \<Rightarrow> if y < x then b else a))"

definition mergeConstraints ::
  "FieldConstraints option \<Rightarrow> FieldConstraints option \<Rightarrow> FieldConstraints option" where
  "mergeConstraints a b =
     (case a of
        None \<Rightarrow> (case b of None \<Rightarrow> None | Some cp \<Rightarrow> Some cp)
      | Some a' \<Rightarrow>
          (case b of
             None \<Rightarrow> a
           | Some b' \<Rightarrow>
               (let out = a'\<lparr>
                      fc_Required := fc_Required a' \<or> fc_Required b',
                      fc_Nullable := fc_Nullable a' \<or> fc_Nullable b',
                      fc_MinLength := pickIntPtrMax (fc_MinLength a') (fc_MinLength b'),
                      fc_MaxLength := pickIntPtrMin (fc_MaxLength a') (fc_MaxLength b'),
                      fc_Minimum := pickFloatPtrMax (fc_Minimum a') (fc_Minimum b'),
                      fc_Maximum := pickFloatPtrMin (fc_Maximum a') (fc_Maximum b'),
                      fc_Pattern := (if fc_Pattern a' = [] then fc_Pattern b' else fc_Pattern a'),
                      fc_Format := (if fc_Format a' = [] then fc_Format b' else fc_Format a'),
                      fc_Enum := (if length (fc_Enum a') = 0 \<and> length (fc_Enum b') > 0
                                  then fc_Enum b' else fc_Enum a')\<rparr>
                in if constraintsEmpty (Some out) then None else Some out)))"

text \<open>
  The merge rule in the words of the specification: of two optional bounds the stricter
  one is kept, an absent bound being no constraint.
\<close>

definition stricterLower :: "('a::linorder) option \<Rightarrow> 'a option \<Rightarrow> 'a option" where
  "stricterLower a b =
     (case (a, b) of
        (None, _) \<Rightarrow> b
      | (_, None) \<Rightarrow> a
      | (Some x, Some y) \<Rightarrow> Some (max x y))"

definition stricterUpper :: "('a::linorder) option \<Rightarrow> 'a option \<Rightarrow> 'a option" where
  "stricterUpper a b =
     (case (a, b) of
        (None, _) \<Rightarrow> b
      | (_, None) \<Rightarrow> a
      | (Some x, Some y) \<Rightarrow> Some (min x y))"

text \<open>The four bounds of a possibly absent constraint set (none when it is absent).\<close>

definition boundsOf ::
  "FieldConstraints option \<Rightarrow> int option \<times> int option \<times> real option \<times> real option" where
  "boundsOf c =
     (case c of
        None \<Rightarrow> (None, None, None, None)
      | Some c \<Rightarrow> (fc_MinLength c, fc_MaxLength c, fc_Minimum c, fc_Maximum c))"

definition allDefault :: "FieldConstraints \<Rightarrow> bool" where
  "allDefault c =
     (c = \<lparr>fc_Required = False, fc_Nullable = False, fc_MinLength = None,
           fc_MaxLength = None, fc_Minimum = None, fc_Maximum = None,
           fc_Pattern = [], fc_Format = [], fc_Enum = []\<rparr>)"

text \<open>The record that \<open>mergeConstraints\<close> builds from two present constraint sets.\<close>

definition mergedOut :: "FieldConstraints \<Rightarrow> FieldConstraints \<Rightarrow> FieldConstraints" where
  "mergedOut a b =
     \<lparr>fc_Required = fc_Required a \<or> fc_Required b,
      fc_Nullable = fc_Nullable a \<or> fc_Nullable b,
      fc_MinLength = stricterLower (fc_MinLength a) (fc_MinLength b),
      fc_MaxLength = stricterUpper (fc_MaxLength a) (fc_MaxLength b),
      fc_Minimum = stricterLower (fc_Minimum a) (fc_Minimum b),
      fc_Maximum = stricterUpper (fc_Maximum a) (fc_Maximum b),
      fc_Pattern = (if fc_Pattern a = [] then fc_Pattern b else fc_Pattern a),
      fc_Format = (if fc_Format a = [] then fc_Format b else fc_Format a),
      fc_Enum = (if fc_Enum a = [] then fc_Enum b else fc_Enum a)\<rparr>"

section \<open>More string primitives\<close>

text \<open>
  \<open>strings.TrimSpace\<close> removes the leading and the trailing white space as Unicode
  defines it.  A Go string is a byte sequence that the library reads as UTF-8.  The
  white space runes (\<open>unicode.IsSpace\<close>) are U+0009 to U+000D, U+0020, U+0085, U+00A0,
  U+1680, U+2000 to U+200A, U+2028, U+2029, U+202F, U+205F and U+3000;
  \<open>spaceEncodings\<close> lists their UTF-8 encodings.  The decoder accepts a rune only in
  its shortest encoding and reads any other byte as U+FFFD, which is not white space;
  so a string starts with a white space rune exactly when one of these byte sequences is
  a prefix of it.  Read from the end, the decoder steps back to the nearest byte that can
  start a rune, and a string ends with a white space rune exactly when one of these byte
  sequences is a suffix of it.  No encoding is a prefix or a suffix of another, so at
  most one of them matches.
\<close>

definition spaceEncodings :: "string list" where
  "spaceEncodings =
     [[CHR 0x09], [CHR 0x0A], [CHR 0x0B], [CHR 0x0C], [CHR 0x0D], [CHR 0x20],
      [CHR 0xC2, CHR 0x85], [CHR 0xC2, CHR 0xA0],
      [CHR 0xE1, CHR 0x9A, CHR 0x80],
      [CHR 0xE2, CHR 0x80, CHR 0x80], [CHR 0xE2, CHR 0x80, CHR 0x81],
      [CHR 0xE2, CHR 0x80, CHR 0x82], [CHR 0xE2, CHR 0x80, CHR 0x83],
      [CHR 0xE2, CHR 0x80, CHR 0x84], [CHR 0xE2, CHR 0x80, CHR 0x85],
      [CHR 0xE2, CHR 0x80, CHR 0x86], [CHR 0xE2, CHR 0x80, CHR 0x87],
      [CHR 0xE2, CHR 0x80, CHR 0x88], [CHR 0xE2, CHR 0x80, CHR 0x89],
      [CHR 0xE2, CHR 0x80, CHR 0x8A],
      [CHR 0xE2, CHR 0x80, CHR 0xA8], [CHR 0xE2, CHR 0x80, CHR 0xA9],
      [CHR 0xE2, CHR 0x80, CHR 0xAF],
      [CHR 0xE2, CHR 0x81, CHR 0x9F],
      [CHR 0xE3, CHR 0x80, CHR 0x80]]"

text \<open>
  The number of bytes of the white space rune at the start (at the end) of a string,
  and 0 when there is none.
\<close>

definition leadingSpace :: "string \<Rightarrow> nat" where
  "leadingSpace s =
     (case List.find (HasPrefix s) spaceEncodings of None \<Rightarrow> 0 | Some w \<Rightarrow> length w)"

definition trailingSpace :: "string \<Rightarrow> nat" where
  "trailingSpace s =
     (case List.find (HasSuffix s) spaceEncodings of None \<Rightarrow> 0 | Some w \<Rightarrow> length w)"

lemma leadingSpace_nonempty: "leadingSpace s \<noteq> 0 \<Longrightarrow> 0 < length s"
  by (auto simp: leadingSpace_def HasPrefix_def find_Some_iff split: option.splits)

lemma trailingSpace_nonempty: "trailingSpace s \<noteq> 0 \<Longrightarrow> 0 < length s"
  by (auto simp: trailingSpace_def HasSuffix_def find_Some_iff split: option.splits)

lemma leadingSpace_less: "0 < leadingSpace s \<Longrightarrow> length s - leadingSpace s < length s"
  using leadingSpace_nonempty [of s] by simp

lemma trailingSpace_less: "0 < trailingSpace s \<Longrightarrow> length s - trailingSpace s < length s"
  using trailingSpace_nonempty [of s] by simp

function TrimLeftSpace :: "string \<Rightarrow> string" where
  "TrimLeftSpace s =
     (if leadingSpace s = 0 then s else TrimLeftSpace (drop (leadingSpace s) s))"
  by pat_completeness auto
termination
  by (relation "measure length") (simp_all add: leadingSpace_less)

function TrimRightSpace :: "string \<Rightarrow> string" where
  "TrimRightSpace s =
     (if trailingSpace s = 0 then s else TrimRightSpace (take (length s - trailingSpace s) s))"
  by pat_completeness auto
termination
  by (relation "measure length") (simp_all add: trailingSpace_less)

declare TrimLeftSpace.simps [simp del] TrimRightSpace.simps [simp del]

definition TrimSpace :: "string \<Rightarrow> string" where
  "TrimSpace s = TrimRightSpace (TrimLeftSpace s)"

text \<open>
  What the program takes from Go's library and runtime without the sources fixing it is
  gathered in the record \<open>runtime\<close>.  Every function that depends on it takes the
  record as its first argument, and nothing is assumed about its fields, so what is
  proved holds whatever the library does there.

  Case mapping: \<open>strings.ToLower\<close> and \<open>strings.ToUpper\<close> map a string that has no
  byte from \<open>0x80\<close> on bytewise, and only \<open>A\<close> to \<open>Z\<close> (\<open>a\<close> to \<open>z\<close>) change.
  Any other string goes through \<open>strings.Map\<close> with \<open>unicode.ToLower\<close>
  (\<open>unicode.ToUpper\<close>), that is through the UTF-8 decoder and the case tables of the
  \<open>unicode\<close> package; the result is \<open>rt_MapToLower\<close> (\<open>rt_MapToUpper\<close>).

  Sorting: \<open>sort.Slice\<close> (Go 1.19 and later) sorts a slice of at most 12 elements by
  insertion and any longer slice by pattern-defeating quicksort, which may exchange
  elements that compare equal; the result for a longer slice is \<open>rt_pdqsortColumns\<close>,
  \<open>rt_pdqsortOperations\<close>, \<open>rt_pdqsortEntities\<close>.

  Map iteration: \<open>range\<close> over a map with more than one entry visits the entries in
  an order of the runtime's choosing.  For the maps that the program receives, the order
  of the association list stands for it; for the entity map that
  \<open>consolidateByNormalizedName\<close> builds itself it is \<open>rt_rangeEntities\<close>.
\<close>

record runtime =
  rt_MapToLower :: "string \<Rightarrow> string"
  rt_MapToUpper :: "string \<Rightarrow> string"
  rt_pdqsortColumns :: "ColumnInfo list \<Rightarrow> ColumnInfo list"
  rt_pdqsortOperations :: "OperationInfo list \<Rightarrow> OperationInfo list"
  rt_pdqsortEntities :: "TableMetadata list \<Rightarrow> TableMetadata list"
  rt_rangeEntities :: "(string \<times> TableMetadata) list \<Rightarrow> (string \<times> TableMetadata) list"

definition isASCII :: "string \<Rightarrow> bool" where
  "isASCII s = list_all (\<lambda>c. c < CHR 0x80) s"

definition toLowerChar :: "char \<Rightarrow> char" where
  "toLowerChar c =
     (case map_of (zip ''ABCDEFGHIJKLMNOPQRSTUVWXYZ'' ''abcdefghijklmnopqrstuvwxyz'') c of
        None \<Rightarrow> c | Some d \<Rightarrow> d)"

definition toUpperChar :: "char \<Rightarrow> char" where
  "toUpperChar c =
     (case map_of (zip ''abcdefghijklmnopqrstuvwxyz'' ''ABCDEFGHIJKLMNOPQRSTUVWXYZ'') c of
        None \<Rightarrow> c | Some d \<Rightarrow> d)"

definition ToLower :: "runtime \<Rightarrow> string \<Rightarrow> string" where
  "ToLower rt s = (if isASCII s then map toLowerChar s else rt_MapToLower rt s)"

definition ToUpper :: "runtime \<Rightarrow> string \<Rightarrow> string" where
  "ToUpper rt s = (if isASCII s then map toUpperChar s else rt_MapToUpper rt s)"

text \<open>
  \<open>sort.Slice\<close> with a comparison that is the order of a key.  Insertion sort moves
  each element to the left past the elements with a strictly greater key, so elements
  with equal keys keep their order: it is \<open>sort_key\<close>.  Strings compare bytewise, as in
  Go.
\<close>

definition sortSlice :: "('a list \<Rightarrow> 'a list) \<Rightarrow> ('a \<Rightarrow> 'k::linorder) \<Rightarrow> 'a list \<Rightarrow> 'a list" where
  "sortSlice pdqsort key xs = (if length xs \<le> 12 then sort_key key xs else pdqsort xs)"

text \<open>\<open>strings.ReplaceAll(s, old, "")\<close> for a one-byte \<open>old\<close>: every such byte is removed.\<close>

definition removeAll_char :: "char \<Rightarrow> string \<Rightarrow> string" where
  "removeAll_char c s = filter (\<lambda>x. x \<noteq> c) s"

text \<open>\<open>strings.Split(s, sep)\<close> for a one-byte separator; the result is never empty.\<close>

fun Split :: "string \<Rightarrow> char \<Rightarrow> string list" where
  "Split [] sep = [[]]"
| "Split (x # xs) sep =
     (if x = sep then [] # Split xs sep
      else (case Split xs sep of
              [] \<Rightarrow> [[x]]
            | y # ys \<Rightarrow> (x # y) # ys))"

text \<open>\<open>strings.SplitN(s, sep, 2)\<close> for a one-byte separator: split at the first one.\<close>

definition SplitN2 :: "string \<Rightarrow> char \<Rightarrow> string list" where
  "SplitN2 s sep =
     (if sep \<in> set s
      then [takeWhile (\<lambda>x. x \<noteq> sep) s, tl (dropWhile (\<lambda>x. x \<noteq> sep) s)]
      else [s])"

text \<open>\<open>strings.Trim(s, "/")\<close>-style trimming of one byte from both ends.\<close>

definition Trim_char :: "string \<Rightarrow> char \<Rightarrow> string" where
  "Trim_char s c = rev (dropWhile (\<lambda>x. x = c) (rev (dropWhile (\<lambda>x. x = c) s)))"

section \<open>Identity keys\<close>

definition columnKey :: "runtime \<Rightarrow> ColumnInfo \<Rightarrow> string" where
  "columnKey rt c =
     (let s = col_JSONName c;
          s = (if s = [] then col_Name c else s);
          s = ToLower rt (TrimSpace s);
          s = removeAll_char (CHR ''_'') s;
          s = removeAll_char (CHR ''-'') s
      in s)"

definition relationKey :: "runtime \<Rightarrow> RelationNode option \<Rightarrow> string" where
  "relationKey rt r =
     (case r of
        None \<Rightarrow> []
      | Some r \<Rightarrow>
          ToLower rt (TrimSpace (rel_FieldName r)) @ ''|'' @
          ToLower rt (TrimSpace (rel_TargetStruct r)) @ ''|'' @
          ToLower rt (TrimSpace (rel_TargetKey r)) @ ''|'' @
          ToLower rt (TrimSpace (rel_SourceKey r)))"

definition operationKey :: "OperationInfo \<Rightarrow> string" where
  "operationKey op = op_Method op @ ''|'' @ op_Path op @ ''|'' @ op_OperationID op"

section \<open>Consolidator\<close>

definition mergeColumn :: "ColumnInfo \<Rightarrow> ColumnInfo \<Rightarrow> ColumnInfo" where
  "mergeColumn a b =
     (let out = a;
          out = (if col_Name out = [] then out\<lparr>col_Name := col_Name b\<rparr> else out);
          out = (if col_JSONName out = [] then out\<lparr>col_JSONName := col_JSONName b\<rparr> else out);
          out = (if col_Type out = [] \<or> col_Type out = ''Unknown''
                 then (if col_Type b \<noteq> [] then out\<lparr>col_Type := col_Type b\<rparr> else out)
                 else out);
          out = (if col_Description out = []
                 then out\<lparr>col_Description := col_Description b\<rparr> else out);
          out = (if col_Validation out = []
                 then out\<lparr>col_Validation := col_Validation b\<rparr> else out);
          out = (if col_Additional out = []
                 then out\<lparr>col_Additional := col_Additional b\<rparr> else out);
          out = (if col_Ref out = [] then out\<lparr>col_Ref := col_Ref b\<rparr> else out);
          out = out\<lparr>col_IsArray := col_IsArray out \<or> col_IsArray b\<rparr>;
          out = out\<lparr>col_Constraints := mergeConstraints (col_Constraints out) (col_Constraints b)\<rparr>;
          out = (if col_Source out = [] then out\<lparr>col_Source := col_Source b\<rparr> else out)
      in out)"

text \<open>
  \<open>mergeColumns\<close> first indexes the destination by column key (a later column with
  the same key replaces an earlier one in the index), then walks the source.  The index
  only ever holds positions of the destination, so the indexed read and write are in
  range.
\<close>

definition columnIndex :: "runtime \<Rightarrow> ColumnInfo list \<Rightarrow> (string \<rightharpoonup> nat)" where
  "columnIndex rt dst = fold (\<lambda>i index. index(columnKey rt (dst ! i) \<mapsto> i)) [0..<length dst] Map.empty"

fun mergeColumns_loop ::
  "runtime \<Rightarrow> ColumnInfo list \<Rightarrow> (string \<rightharpoonup> nat) \<Rightarrow> ColumnInfo list \<Rightarrow> ColumnInfo list" where
  "mergeColumns_loop rt dst index [] = dst"
| "mergeColumns_loop rt dst index (c # src) =
     (let k = columnKey rt c in
      if k = [] then mergeColumns_loop rt dst index src
      else (case index k of
              Some i \<Rightarrow> mergeColumns_loop rt (dst[i := mergeColumn (dst ! i) c]) index src
            | None \<Rightarrow> mergeColumns_loop rt (dst @ [c]) (index(k \<mapsto> length dst)) src))"

definition mergeColumns :: "runtime \<Rightarrow> ColumnInfo list \<Rightarrow> ColumnInfo list \<Rightarrow> ColumnInfo list" where
  "mergeColumns rt dst src = mergeColumns_loop rt dst (columnIndex rt dst) src"

fun mergeRelations_loop ::
  "runtime \<Rightarrow> RelationNode option list \<Rightarrow> string set \<Rightarrow> RelationNode option list \<Rightarrow> RelationNode option list" where
  "mergeRelations_loop rt dst seen [] = dst"
| "mergeRelations_loop rt dst seen (r # src) =
     (let k = relationKey rt r in
      if k = [] then mergeRelations_loop rt dst seen src
      else if k \<in> seen then mergeRelations_loop rt dst seen src
      else mergeRelations_loop rt (dst @ [r]) (insert k seen) src)"

definition mergeRelations ::
  "runtime \<Rightarrow> RelationNode option list \<Rightarrow> RelationNode option list \<Rightarrow> RelationNode option list" where
  "mergeRelations rt dst src = mergeRelations_loop rt dst (relationKey rt ` set dst) src"

fun mergeOperations_loop ::
  "OperationInfo list \<Rightarrow> string set \<Rightarrow> OperationInfo list \<Rightarrow> OperationInfo list" where
  "mergeOperations_loop dst seen [] = dst"
| "mergeOperations_loop dst seen (op # src) =
     (let k = operationKey op in
      if k = [] then mergeOperations_loop dst seen src
      else if k \<in> seen then mergeOperations_loop dst seen src
      else mergeOperations_loop (dst @ [op]) (insert k seen) src)"

definition mergeOperations :: "OperationInfo list \<Rightarrow> OperationInfo list \<Rightarrow> OperationInfo list" where
  "mergeOperations dst src = mergeOperations_loop dst (operationKey ` set dst) src"

text \<open>
  \<open>cloneTableMetadata\<close> and \<open>mergeTableMetadata\<close>.  The records of the accumulator are
  never \<open>nil\<close> (\<open>putSchema\<close> reads the name of every record it stores), so the
  \<open>nil\<close> guards of the two functions are not modelled.  A \<open>nil\<close> slice and an empty
  slice are both the empty list.
\<close>

definition cloneTableMetadata :: "TableMetadata \<Rightarrow> TableMetadata" where
  "cloneTableMetadata in' =
     \<lparr>tm_StructName = tm_StructName in',
      tm_NormalizedName = tm_NormalizedName in',
      tm_Source = tm_Source in',
      tm_Columns = (if length (tm_Columns in') > 0 then tm_Columns in' else []),
      tm_Relations = (if length (tm_Relations in') > 0 then tm_Relations in' else []),
      tm_Operations = (if length (tm_Operations in') > 0 then tm_Operations in' else [])\<rparr>"

definition mergeTableMetadata :: "runtime \<Rightarrow> TableMetadata \<Rightarrow> TableMetadata \<Rightarrow> TableMetadata" where
  "mergeTableMetadata rt dst src =
     (let dst = dst\<lparr>tm_Source := ''merged''\<rparr>;
          dst = dst\<lparr>tm_Columns := mergeColumns rt (tm_Columns dst) (tm_Columns src)\<rparr>;
          dst = dst\<lparr>tm_Relations := mergeRelations rt (tm_Relations dst) (tm_Relations src)\<rparr>;
          dst = dst\<lparr>tm_Operations := mergeOperations (tm_Operations dst) (tm_Operations src)\<rparr>
      in if tm_StructName dst = [] \<or> (tm_Source dst = ''merged'' \<and> tm_Source src = ''openapi'')
         then (if tm_StructName src \<noteq> [] then dst\<lparr>tm_StructName := tm_StructName src\<rparr> else dst)
         else dst)"

text \<open>The name a column has on the wire, which is also its sort key.\<close>

definition wireName :: "ColumnInfo \<Rightarrow> string" where
  "wireName c = (if col_JSONName c = [] then col_Name c else col_JSONName c)"

definition stabilizeTableMetadata :: "runtime \<Rightarrow> TableMetadata \<Rightarrow> TableMetadata" where
  "stabilizeTableMetadata rt t =
     t\<lparr>tm_Columns := sortSlice (rt_pdqsortColumns rt) wireName (tm_Columns t),
       tm_Operations := sortSlice (rt_pdqsortOperations rt)
                          (\<lambda>op. (op_Path op, op_Method op)) (tm_Operations t)\<rparr>"

record ConsolidatedSchema =
  cs_Entities :: "(string \<times> TableMetadata) list"
  cs_EntityList :: "TableMetadata list"
  cs_GeneratedBy :: string

text \<open>
  \<open>consolidateByNormalizedName\<close>: the first loop walks the accumulator in the order
  of the association list (Go's map order).  The second loop ranges over the entity map,
  stabilizes every entity and appends it to the list, which is then sorted by normalized
  name.
\<close>

definition rangeEntities ::
  "runtime \<Rightarrow> (string \<times> TableMetadata) list \<Rightarrow> (string \<times> TableMetadata) list" where
  "rangeEntities rt entities = (if length entities \<le> 1 then entities else rt_rangeEntities rt entities)"

definition consolidate_step ::
  "runtime \<Rightarrow> string \<times> TableMetadata \<Rightarrow> (string \<times> TableMetadata) list \<Rightarrow> (string \<times> TableMetadata) list" where
  "consolidate_step rt kv entities =
     (let entry = snd kv;
          norm = tm_NormalizedName entry;
          norm = (if norm = [] then normalizeEntityName (tm_StructName entry) else norm)
      in if norm = [] then entities
         else (case map_of entities norm of
                 Some existing \<Rightarrow> AList.update norm (mergeTableMetadata rt existing entry) entities
               | None \<Rightarrow> AList.update norm (cloneTableMetadata entry) entities))"

definition consolidateByNormalizedName :: "runtime \<Rightarrow> SchemaMap \<Rightarrow> ConsolidatedSchema" where
  "consolidateByNormalizedName rt schema =
     (let entities = fold (consolidate_step rt) schema [];
          entities = map (\<lambda>(k, e). (k, stabilizeTableMetadata rt e)) entities;
          list = sortSlice (rt_pdqsortEntities rt) tm_NormalizedName
                   (map snd (rangeEntities rt entities))
      in \<lparr>cs_Entities = entities, cs_EntityList = list, cs_GeneratedBy = ''schema-architect''\<rparr>)"

section \<open>Example inputs\<close>

text \<open>
  Two request/response structs of an \<open>api\<close> package that normalize to the same entity
  \<open>User\<close>, as \<open>parseFile\<close> records them.
\<close>

definition exampleUserReq :: TableMetadata where
  "exampleUserReq =
     \<lparr>tm_StructName = ''UserReq'', tm_NormalizedName = ''User'', tm_Source = ''go:api'',
      tm_Columns = [\<lparr>col_Name = ''Name'', col_JSONName = ''name'', col_Type = ''string'',
                     col_Validation = [], col_Description = ''Login name'', col_Additional = [],
                     col_Constraints = None, col_Ref = [], col_IsArray = False,
                     col_Source = ''go:api''\<rparr>],
      tm_Relations = [], tm_Operations = []\<rparr>"

definition exampleUserRes :: TableMetadata where
  "exampleUserRes =
     \<lparr>tm_StructName = ''UserRes'', tm_NormalizedName = ''User'', tm_Source = ''go:api'',
      tm_Columns = [\<lparr>col_Name = ''Name'', col_JSONName = ''name'', col_Type = ''string'',
                     col_Validation = [], col_Description = ''Display name'', col_Additional = [],
                     col_Constraints = None, col_Ref = [], col_IsArray = False,
                     col_Source = ''go:api''\<rparr>],
      tm_Relations = [], tm_Operations = []\<rparr>"

text \<open>The invariant of the column index of \<open>mergeColumns\<close>: it points into the destination.\<close>

definition index_ok :: "runtime \<Rightarrow> ColumnInfo list \<Rightarrow> (string \<rightharpoonup> nat) \<Rightarrow> bool" where
  "index_ok rt dst index = (\<forall>k i. index k = Some i \<longrightarrow> i < length dst \<and> columnKey rt (dst ! i) = k)"

section \<open>Inserting into the accumulator\<close>

text \<open>
  \<open>putSchema\<close> probes the raw struct name and then \<open>base__2\<close>, \<open>base__3\<close>, ... until a
  key is free.  \<open>fmt.Sprintf("%s__%d", base, i)\<close> is the base, two underscores and the
  decimal digits of \<open>i\<close>.  The counter is a natural number (Go's \<open>int\<close> would overflow
  only after \<open>2^63\<close> occupied keys).  The loop has no bound of its own; it terminates
  because the decimal rendering is injective and the map is finite.
\<close>

definition digitChar :: "nat \<Rightarrow> char" where
  "digitChar d = ''0123456789'' ! d"

fun itoa :: "nat \<Rightarrow> string" where
  "itoa n = (if n < 10 then [digitChar n] else itoa (n div 10) @ [digitChar (n mod 10)])"

declare itoa.simps [simp del]

definition suffixedKey :: "string \<Rightarrow> nat \<Rightarrow> string" where
  "suffixedKey base i = base @ ''__'' @ itoa i"

lemma itoa_nonempty: "itoa n \<noteq> []"
  by (subst itoa.simps) simp

lemma last_itoa: "last (itoa n) = digitChar (n mod 10)"
  by (subst itoa.simps) simp

lemma butlast_itoa: "butlast (itoa n) = (if n < 10 then [] else itoa (n div 10))"
  by (subst itoa.simps) simp

lemma digitChar_inj: "a < 10 \<Longrightarrow> b < 10 \<Longrightarrow> digitChar a = digitChar b \<Longrightarrow> a = b"
proof -
  assume a: "a < 10" and b: "b < 10" and e: "digitChar a = digitChar b"
  have d: "distinct ''0123456789''" by simp
  have "length ''0123456789'' = 10" by simp
  with a b e d show "a = b"
    unfolding digitChar_def by (metis nth_eq_iff_index_eq)
qed

lemma itoa_inj: "itoa n = itoa m \<Longrightarrow> n = m"
proof (induction n arbitrary: m rule: itoa.induct)
  case (1 n)
  from "1.prems" have l: "last (itoa n) = last (itoa m)" and bl: "butlast (itoa n) = butlast (itoa m)"
    by simp_all
  from l have md: "n mod 10 = m mod 10"
    unfolding last_itoa by (rule digitChar_inj [rotated 2]) simp_all
  show ?case
  proof (cases "n < 10")
    case True
    with bl have "m < 10"
      using itoa_nonempty [of "m div 10"] by (auto simp: butlast_itoa split: if_splits)
    with True md show ?thesis by simp
  next
    case False
    with bl have m: "\<not> m < 10" and "itoa (n div 10) = itoa (m div 10)"
      using itoa_nonempty [of "n div 10"] by (auto simp: butlast_itoa split: if_splits)
    with "1.IH" False have "n div 10 = m div 10" by simp
    with md show ?thesis
      by (metis div_mult_mod_eq)
  qed
qed

lemma suffixedKey_inj: "inj (suffixedKey base)"
  by (rule injI) (simp add: suffixedKey_def itoa_inj)

text \<open>
  The state of the loop is the key to probe next and the counter \<open>i\<close>; a map assignment
  to a key is \<open>AList.update\<close>.
\<close>

function putSchema_loop ::
  "SchemaMap \<Rightarrow> TableMetadata \<Rightarrow> string \<Rightarrow> string \<Rightarrow> nat \<Rightarrow> SchemaMap" where
  "putSchema_loop schema table base key i =
     (if map_of schema key = None then AList.update key table schema
      else putSchema_loop schema table base (suffixedKey base i) (i + 1))"
  by pat_completeness auto

text \<open>
  The measure of the loop: the suffixes from \<open>i\<close> on whose key is occupied, plus one
  while the key to probe is occupied.
\<close>

definition taken_from :: "SchemaMap \<Rightarrow> string \<Rightarrow> nat \<Rightarrow> nat set" where
  "taken_from schema base i = {j. i \<le> j \<and> suffixedKey base j \<in> fst ` set schema}"

lemma finite_taken_from: "finite (taken_from schema base i)"
proof -
  have "taken_from schema base i \<subseteq> suffixedKey base -` (fst ` set schema)"
    by (auto simp: taken_from_def)
  moreover have "finite (suffixedKey base -` (fst ` set schema))"
    by (rule finite_vimageI) (simp_all add: suffixedKey_inj)
  ultimately show ?thesis by (rule finite_subset)
qed

lemma taken_from_step:
  "taken_from schema base i =
     (if suffixedKey base i \<in> fst ` set schema then {i} else {}) \<union> taken_from schema base (Suc i)"
  by (auto simp: taken_from_def Suc_le_eq le_less)

lemma card_taken_from_step:
  "card (taken_from schema base i) =
     (if suffixedKey base i \<in> fst ` set schema then 1 else 0) + card (taken_from schema base (Suc i))"
proof -
  have "i \<notin> taken_from schema base (Suc i)"
    by (simp add: taken_from_def)
  then show ?thesis
    by (subst taken_from_step) (simp add: finite_taken_from)
qed

termination putSchema_loop
proof (relation "measure (\<lambda>(schema, table, base, key, i).
          card (taken_from schema base i) + (if key \<in> fst ` set schema then 1 else 0))")
  show "wf (measure (\<lambda>(schema, table, base, key, i).
          card (taken_from schema base i) + (if key \<in> fst ` set schema then 1 else 0)))"
    by simp
next
  fix schema :: SchemaMap and table :: TableMetadata and base key :: string and i :: nat
  assume "map_of schema key \<noteq> None"
  then have "key \<in> fst ` set schema"
    by (simp add: map_of_eq_None_iff)
  then show "((schema, table, base, suffixedKey base i, i + 1), (schema, table, base, key, i))
      \<in> measure (\<lambda>(schema, table, base, key, i).
          card (taken_from schema base i) + (if key \<in> fst ` set schema then 1 else 0))"
    by (simp add: card_taken_from_step [of schema base i])
qed

declare putSchema_loop.simps [simp del]

definition putSchema :: "SchemaMap \<Rightarrow> TableMetadata \<Rightarrow> SchemaMap" where
  "putSchema schema table = putSchema_loop schema table (tm_StructName table) (tm_StructName table) 2"

text \<open>A record with one column, as \<open>parseFile\<close> stores it for a struct of that name.\<close>

definition exampleTable :: "string \<Rightarrow> TableMetadata" where
  "exampleTable name =
     \<lparr>tm_StructName = name, tm_NormalizedName = normalizeEntityName name, tm_Source = ''go:do'',
      tm_Columns = [\<lparr>col_Name = ''Id'', col_JSONName = ''id'', col_Type = ''int'',
                     col_Validation = [], col_Description = [], col_Additional = [],
                     col_Constraints = None, col_Ref = [], col_IsArray = False,
                     col_Source = ''go:do''\<rparr>],
      tm_Relations = [], tm_Operations = []\<rparr>"

section \<open>Relation tags\<close>

text \<open>
  \<open>parseWithTag\<close>: the first comma-separated segment that, trimmed, starts with
  \<open>with:\<close> gives the value (the loop breaks there); an empty value gives \<open>nil\<close>.
\<close>

fun findWithPart :: "string list \<Rightarrow> string" where
  "findWithPart [] = []"
| "findWithPart (p # parts) =
     (let p = TrimSpace p in
      if HasPrefix p ''with:'' then TrimPrefix p ''with:'' else findWithPart parts)"

definition parseWithTag :: "string \<Rightarrow> RelationNode option" where
  "parseWithTag tag =
     (let parts = Split tag (CHR '','');
          withPart = findWithPart parts
      in if withPart = [] then None
         else
           (let rel = \<lparr>rel_FieldName = [], rel_TargetStruct = [], rel_IsCollection = False,
                       rel_TargetKey = [], rel_SourceKey = [], rel_Validation = [],
                       rel_Description = []\<rparr>;
                kv = SplitN2 withPart (CHR ''='');
                rel = rel\<lparr>rel_TargetKey := TrimSpace (kv ! 0)\<rparr>;
                rel = (if length kv > 1 then rel\<lparr>rel_SourceKey := TrimSpace (kv ! 1)\<rparr>
                       else rel\<lparr>rel_SourceKey := ''id''\<rparr>)
            in Some rel))"

text \<open>\<open>strings.Join(segs, ",")\<close>, used to describe a tag by its segments.\<close>

fun Join_comma :: "string list \<Rightarrow> string" where
  "Join_comma [] = []"
| "Join_comma [s] = s"
| "Join_comma (s # t # ss) = s @ '','' @ Join_comma (t # ss)"

section \<open>OpenAPI document\<close>

text \<open>
  The decoded OpenAPI document.  A Go map is an association list with distinct keys (its
  order is the iteration order, which Go leaves open); a map value or slice element that
  is a pointer may be \<open>null\<close> in the JSON document and is an \<open>option\<close>.
  \<open>Enum\<close> holds the \<open>fmt.Sprint\<close> rendering of each enumerated value.  Fields the
  parser never reads (\<open>AdditionalProperties\<close>, \<open>Parameters\<close>, \<open>Info\<close>, ...) are
  left out.
\<close>

datatype openAPISchema = OpenAPISchema
  (s_Ref: string)
  (s_Type: string)
  (s_Format: string)
  (s_Description: string)
  (s_Properties: "(string \<times> openAPISchema option) list")
  (s_Items: "openAPISchema option")
  (s_Required: "string list")
  (s_Enum: "string list")
  (s_Nullable: bool)
  (s_MinLength: "int option")
  (s_MaxLength: "int option")
  (s_Minimum: "real option")
  (s_Maximum: "real option")
  (s_Pattern: string)
  (s_AllOf: "openAPISchema option list")
  (s_OneOf: "openAPISchema option list")
  (s_AnyOf: "openAPISchema option list")

record openAPIMediaType =
  mt_Schema :: "openAPISchema option"

record openAPIRequestBody =
  rb_Content :: "(string \<times> openAPIMediaType option) list"

record openAPIResponse =
  resp_Description :: string
  resp_Content :: "(string \<times> openAPIMediaType option) list"

record openAPIOperation =
  oo_OperationID :: string
  oo_Summary :: string
  oo_Tags :: "string list"
  oo_RequestBody :: "openAPIRequestBody option"
  oo_Responses :: "(string \<times> openAPIResponse option) list"

record openAPISpec =
  spec_Paths :: "(string \<times> (string \<times> openAPIOperation option) list) list"
  spec_Schemas :: "(string \<times> openAPISchema option) list"

text \<open>
  \<open>m[k]\<close> on a map of pointers, then the test against \<open>nil\<close>: a missing key and a
  \<open>null\<close> value both give \<open>nil\<close>.
\<close>

definition lookupPtr :: "(string \<times> 'a option) list \<Rightarrow> string \<Rightarrow> 'a option" where
  "lookupPtr m k = (case map_of m k of Some (Some v) \<Rightarrow> Some v | _ \<Rightarrow> None)"

section \<open>Operation schemas\<close>

text \<open>
  \<open>pickJSONMediaSchema\<close> reads \<open>content[keys[0]].Schema\<close> in its last branch without
  a \<open>nil\<close> test: a \<open>null\<close> media type there is a run-time panic, the error of the
  model.  \<open>sort.Strings\<close> sorts bytewise.
\<close>

datatype error = NilPointerDereference

definition openAPIRefName :: "string \<Rightarrow> string" where
  "openAPIRefName ref =
     (let pfx = ''#/components/schemas/'' in
      if HasPrefix ref pfx then TrimPrefix ref pfx
      else if CHR ''/'' \<in> set ref then rev (takeWhile (\<lambda>c. c \<noteq> CHR ''/'') (rev ref))
      else [])"

definition pickJSONMediaSchema ::
  "(string \<times> openAPIMediaType option) list \<Rightarrow> error + openAPISchema option" where
  "pickJSONMediaSchema content =
     (if length content = 0 then Inr None
      else (case lookupPtr content ''application/json'' of
              Some mt \<Rightarrow> Inr (mt_Schema mt)
            | None \<Rightarrow>
                (case lookupPtr content ''application/ld+json'' of
                   Some mt \<Rightarrow> Inr (mt_Schema mt)
                 | None \<Rightarrow>
                     (let keys = sort (map fst content) in
                      case lookupPtr content (keys ! 0) of
                        None \<Rightarrow> Inl NilPointerDereference
                      | Some mt \<Rightarrow> Inr (mt_Schema mt)))))"

definition openAPISchemaRefOrItemRef :: "openAPISchema option \<Rightarrow> string" where
  "openAPISchemaRefOrItemRef s =
     (case s of
        None \<Rightarrow> []
      | Some s \<Rightarrow>
          if s_Ref s \<noteq> [] then openAPIRefName (s_Ref s)
          else (case s_Items s of
                  Some items \<Rightarrow>
                    if s_Type s = ''array'' \<and> s_Ref items \<noteq> [] then openAPIRefName (s_Ref items)
                    else []
                | None \<Rightarrow> []))"

text \<open>
  The two statements \<open>s := pickJSONMediaSchema(c); return openAPISchemaRefOrItemRef(s)\<close>
  that follow every choice of a request body or response.
\<close>

definition schemaRefOfContent :: "(string \<times> openAPIMediaType option) list \<Rightarrow> error + string" where
  "schemaRefOfContent content =
     (case pickJSONMediaSchema content of
        Inl e \<Rightarrow> Inl e
      | Inr s \<Rightarrow> Inr (openAPISchemaRefOrItemRef s))"

definition pickOpenAPISchemaRefName :: "openAPIRequestBody option \<Rightarrow> error + string" where
  "pickOpenAPISchemaRefName rb =
     (case rb of
        None \<Rightarrow> Inr []
      | Some rb \<Rightarrow>
          if length (rb_Content rb) = 0 then Inr []
          else schemaRefOfContent (rb_Content rb))"

text \<open>The loop over the success codes: the first code whose response is not \<open>nil\<close>.\<close>

fun firstResponse ::
  "string list \<Rightarrow> (string \<times> openAPIResponse option) list \<Rightarrow> openAPIResponse option" where
  "firstResponse [] resps = None"
| "firstResponse (code # codes) resps =
     (case lookupPtr resps code of
        Some r \<Rightarrow> Some r
      | None \<Rightarrow> firstResponse codes resps)"

definition pickOpenAPIResponseSchemaRefName ::
  "(string \<times> openAPIResponse option) list \<Rightarrow> error + string" where
  "pickOpenAPIResponseSchemaRefName resps =
     (if length resps = 0 then Inr []
      else (case firstResponse [''200'', ''201'', ''202'', ''204''] resps of
              Some r \<Rightarrow> schemaRefOfContent (resp_Content r)
            | None \<Rightarrow>
                (case lookupPtr resps ''default'' of
                   Some r \<Rightarrow> schemaRefOfContent (resp_Content r)
                 | None \<Rightarrow>
                     (let codes = sort (map fst resps) in
                      case lookupPtr resps (codes ! 0) of
                        None \<Rightarrow> Inr []
                      | Some r \<Rightarrow> schemaRefOfContent (resp_Content r)))))"

text \<open>The order of preference of the response codes, in the words of the specification.\<close>

definition responsePreference :: "string list" where
  "responsePreference = [''200'', ''201'', ''202'', ''204'', ''default'']"

text \<open>A schema that is only a reference, for examples.\<close>

definition refSchema :: "string \<Rightarrow> openAPISchema" where
  "refSchema ref = OpenAPISchema ref [] [] [] [] None [] [] False None None None None [] [] [] []"

definition exampleHalLdContent :: "(string \<times> openAPIMediaType option) list" where
  "exampleHalLdContent =
     [(''application/ld+json'', Some \<lparr>mt_Schema = Some (refSchema ''#/components/schemas/Ld'')\<rparr>),
      (''application/hal+json'', Some \<lparr>mt_Schema = Some (refSchema ''#/components/schemas/Hal'')\<rparr>)]"

definition exampleResponses :: "(string \<times> openAPIResponse option) list" where
  "exampleResponses =
     [(''404'', Some \<lparr>resp_Description = ''missing'', resp_Content = []\<rparr>),
      (''201'', Some \<lparr>resp_Description = ''created'', resp_Content = exampleHalLdContent\<rparr>),
      (''200'', None)]"

text \<open>
  Responses in which a preferred code is present with a \<open>null\<close> response, and a
  content map without any JSON media type.
\<close>

definition exampleNotFoundContent :: "(string \<times> openAPIMediaType option) list" where
  "exampleNotFoundContent =
     [(''application/json'',
       Some \<lparr>mt_Schema = Some (refSchema ''#/components/schemas/NotFound'')\<rparr>)]"

definition exampleNullOkResponses :: "(string \<times> openAPIResponse option) list" where
  "exampleNullOkResponses =
     [(''404'', Some \<lparr>resp_Description = ''missing'', resp_Content = exampleNotFoundContent\<rparr>),
      (''200'', None)]"

definition exampleNullDefaultResponses :: "(string \<times> openAPIResponse option) list" where
  "exampleNullDefaultResponses =
     [(''default'', None),
      (''404'', Some \<lparr>resp_Description = ''missing'', resp_Content = exampleNotFoundContent\<rparr>)]"

definition exampleXmlContent :: "(string \<times> openAPIMediaType option) list" where
  "exampleXmlContent =
     [(''text/plain'', Some \<lparr>mt_Schema = Some (refSchema ''#/components/schemas/Plain'')\<rparr>),
      (''application/xml'', Some \<lparr>mt_Schema = Some (refSchema ''#/components/schemas/Xml'')\<rparr>)]"

section \<open>Schema resolution\<close>

text \<open>
  \<open>collectOpenAPIObject\<close> threads three Go maps through its recursion: the visited set,
  the collected properties and the required names.  They are the state that each call
  takes and returns.  The loop over \<open>allOf\<close> is \<open>collectAllOf\<close>.  The recursion is not
  structural: a reference jumps to a component schema of the document.
\<close>

record collectState =
  co_visited :: "string set"
  co_props :: "(string \<times> openAPISchema option) list"
  co_required :: "string set"

function collectOpenAPIObject ::
    "openAPISpec \<Rightarrow> openAPISchema option \<Rightarrow> collectState \<Rightarrow> collectState"
  and collectAllOf ::
    "openAPISpec \<Rightarrow> openAPISchema option list \<Rightarrow> collectState \<Rightarrow> collectState"
where
  "collectOpenAPIObject spec None st = st"
| "collectOpenAPIObject spec (Some s) st =
     (if s_Ref s \<noteq> [] then
        (let name = openAPIRefName (s_Ref s) in
         if name = [] then st
         else if name \<in> co_visited st then st
         else collectOpenAPIObject spec (lookupPtr (spec_Schemas spec) name)
                (st\<lparr>co_visited := insert name (co_visited st)\<rparr>))
      else
        (let st = st\<lparr>co_required := co_required st \<union> set (s_Required s)\<rparr>;
             st = collectAllOf spec (s_AllOf s) st;
             st = (case s_OneOf s of [] \<Rightarrow> st | sub # _ \<Rightarrow> collectOpenAPIObject spec sub st);
             st = (case s_AnyOf s of [] \<Rightarrow> st | sub # _ \<Rightarrow> collectOpenAPIObject spec sub st)
         in st\<lparr>co_props := fold (\<lambda>(k, v). AList.update k v) (s_Properties s) (co_props st)\<rparr>))"
| "collectAllOf spec [] st = st"
| "collectAllOf spec (sub # subs) st = collectAllOf spec subs (collectOpenAPIObject spec sub st)"
  by pat_completeness auto

text \<open>
  Termination.  The reference names that occur in a schema (through \<open>allOf\<close>, \<open>oneOf\<close>
  and \<open>anyOf\<close>) or in a component schema of the document form a finite set.  Every call
  that follows a reference marks one more of them as visited; every other call descends
  into a smaller schema while the visited set can only have grown.
\<close>

primrec schemaRefs :: "openAPISchema \<Rightarrow> string set" where
  "schemaRefs (OpenAPISchema ref ty fmt descr props items req enum nullable minl maxl
       minimum maximum pat allOf oneOf anyOf) =
     insert (openAPIRefName ref)
       (\<Union> (set (map (case_option {} id) (map (map_option schemaRefs) allOf))) \<union>
        \<Union> (set (map (case_option {} id) (map (map_option schemaRefs) oneOf))) \<union>
        \<Union> (set (map (case_option {} id) (map (map_option schemaRefs) anyOf))))"

definition optRefs :: "openAPISchema option \<Rightarrow> string set" where
  "optRefs so = (case so of None \<Rightarrow> {} | Some s \<Rightarrow> schemaRefs s)"

definition specRefs :: "openAPISpec \<Rightarrow> string set" where
  "specRefs spec = \<Union> (optRefs ` snd ` set (spec_Schemas spec))"

definition collect_unvisited ::
  "openAPISpec \<times> openAPISchema option \<times> collectState +
   openAPISpec \<times> openAPISchema option list \<times> collectState \<Rightarrow> nat" where
  "collect_unvisited x =
     (case x of
        Inl (spec, so, st) \<Rightarrow> card ((optRefs so \<union> specRefs spec) - co_visited st)
      | Inr (spec, subs, st) \<Rightarrow>
          card ((\<Union> (optRefs ` set subs) \<union> specRefs spec) - co_visited st))"

definition collect_size ::
  "openAPISpec \<times> openAPISchema option \<times> collectState +
   openAPISpec \<times> openAPISchema option list \<times> collectState \<Rightarrow> nat" where
  "collect_size x =
     (case x of
        Inl (spec, so, st) \<Rightarrow> size_option size so
      | Inr (spec, subs, st) \<Rightarrow> size_list (size_option size) subs)"

lemma schemaRefs_sel:
  "schemaRefs s =
     insert (openAPIRefName (s_Ref s))
       (\<Union> (optRefs ` set (s_AllOf s)) \<union> \<Union> (optRefs ` set (s_OneOf s)) \<union>
        \<Union> (optRefs ` set (s_AnyOf s)))"
proof (cases s)
  case (OpenAPISchema ref ty fmt descr props items req enum nullable minl maxl
       minimum maximum pat allOf oneOf anyOf)
  show ?thesis
    unfolding OpenAPISchema by (auto simp: optRefs_def split: option.splits)
qed

lemma finite_schemaRefs: "finite (schemaRefs s)"
proof (induction s)
  case (OpenAPISchema ref ty fmt descr props items req enum nullable minl maxl
       minimum maximum pat allOf oneOf anyOf)
  then show ?case
    by (auto split: option.splits)
qed

lemma finite_optRefs: "finite (optRefs so)"
  by (cases so) (simp_all add: optRefs_def finite_schemaRefs)

lemma finite_specRefs: "finite (specRefs spec)"
  by (simp add: specRefs_def finite_optRefs)

lemma optRefs_lookup: "optRefs (lookupPtr (spec_Schemas spec) name) \<subseteq> specRefs spec"
proof (cases "lookupPtr (spec_Schemas spec) name")
  case None
  then show ?thesis by (simp add: optRefs_def)
next
  case (Some v)
  then have "map_of (spec_Schemas spec) name = Some (Some v)"
    by (auto simp: lookupPtr_def split: option.splits)
  then have "(name, Some v) \<in> set (spec_Schemas spec)"
    by (rule map_of_SomeD)
  then have "Some v \<in> snd ` set (spec_Schemas spec)"
    by force
  with Some show ?thesis
    by (auto simp: specRefs_def)
qed

lemma size_AllOf: "size_list (size_option size) (s_AllOf s) < Suc (size s)"
  by (cases s) simp

lemma size_OneOf: "s_OneOf s = x # xs \<Longrightarrow> size_option size x < Suc (size s)"
  by (cases s) simp

lemma size_AnyOf: "s_AnyOf s = x # xs \<Longrightarrow> size_option size x < Suc (size s)"
  by (cases s) simp

lemma card_diff_le:
  "finite B \<Longrightarrow> A \<subseteq> B \<Longrightarrow> V \<subseteq> V' \<Longrightarrow> card (A - V') \<le> card (B - V)"
  by (rule card_mono) auto

lemma card_diff_less:
  "finite B \<Longrightarrow> A \<subseteq> B \<Longrightarrow> x \<in> B \<Longrightarrow> x \<notin> V \<Longrightarrow> card (A - insert x V) < card (B - V)"
  by (rule psubset_card_mono) auto

lemma collect_visited_mono:
  "collectOpenAPIObject_collectAllOf_dom (Inl (spec, so, st)) \<Longrightarrow>
     co_visited st \<subseteq> co_visited (collectOpenAPIObject spec so st)"
  "collectOpenAPIObject_collectAllOf_dom (Inr (spec, subs, st)) \<Longrightarrow>
     co_visited st \<subseteq> co_visited (collectAllOf spec subs st)"
proof (induction spec so st and spec subs st rule: collectOpenAPIObject_collectAllOf.pinduct)
  case (1 spec st)
  then show ?case by (simp add: collectOpenAPIObject.psimps)
next
  case (2 spec s st)
  note dom = "2.hyps"
  show ?case
  proof (cases "s_Ref s \<noteq> []")
    case True
    with "2.IH"(1) dom show ?thesis
      by (auto simp: collectOpenAPIObject.psimps Let_def)
  next
    case False
    define st1 where "st1 = st\<lparr>co_required := co_required st \<union> set (s_Required s)\<rparr>"
    define st2 where "st2 = collectAllOf spec (s_AllOf s) st1"
    define st3 where "st3 = (case s_OneOf s of [] \<Rightarrow> st2 | sub # x \<Rightarrow> collectOpenAPIObject spec sub st2)"
    define st4 where "st4 = (case s_AnyOf s of [] \<Rightarrow> st3 | sub # x \<Rightarrow> collectOpenAPIObject spec sub st3)"
    have r: "co_visited (collectOpenAPIObject spec (Some s) st) = co_visited st4"
      unfolding st4_def st3_def st2_def st1_def
      using False dom by (simp add: collectOpenAPIObject.psimps Let_def)
    have a: "co_visited st1 \<subseteq> co_visited st2"
      unfolding st2_def using "2.IH"(2) [of st1] False by (simp add: st1_def)
    have b: "co_visited st2 \<subseteq> co_visited st3"
    proof (cases "s_OneOf s")
      case Nil
      then show ?thesis by (simp add: st3_def)
    next
      case (Cons x xs)
      with "2.IH"(3) [of st1 st2 x xs] False show ?thesis
        by (simp add: st1_def st2_def st3_def)
    qed
    have c: "co_visited st3 \<subseteq> co_visited st4"
    proof (cases "s_AnyOf s")
      case Nil
      then show ?thesis by (simp add: st4_def)
    next
      case (Cons x xs)
      with "2.IH"(4) [of st1 st2 st3 x xs] False show ?thesis
        by (simp add: st1_def st2_def st3_def st4_def)
    qed
    have "co_visited st = co_visited st1"
      by (simp add: st1_def)
    with a b c r show ?thesis by blast
  qed
next
  case (3 spec st)
  then show ?case by (simp add: collectAllOf.psimps)
next
  case (4 spec sub subs st)
  then show ?case
    by (auto simp: collectAllOf.psimps)
qed

lemma optRefs_Some: "optRefs (Some s) = schemaRefs s"
  by (simp add: optRefs_def)

lemma finite_universe: "finite (optRefs so \<union> specRefs spec)"
  by (simp add: finite_optRefs finite_specRefs)

lemma finite_universe_list: "finite (\<Union> (optRefs ` set subs) \<union> specRefs spec)"
  by (simp add: finite_optRefs finite_specRefs)

lemma refs_AllOf: "\<Union> (optRefs ` set (s_AllOf s)) \<subseteq> schemaRefs s"
  by (subst schemaRefs_sel) blast

lemma refs_OneOf: "s_OneOf s = x # xs \<Longrightarrow> optRefs x \<subseteq> schemaRefs s"
  by (subst schemaRefs_sel) auto

lemma refs_AnyOf: "s_AnyOf s = x # xs \<Longrightarrow> optRefs x \<subseteq> schemaRefs s"
  by (subst schemaRefs_sel) auto

lemma refs_Ref: "openAPIRefName (s_Ref s) \<in> schemaRefs s"
  by (subst schemaRefs_sel) simp

lemma collect_dom_total: "All collectOpenAPIObject_collectAllOf_dom"
proof (relation "collect_unvisited <*mlex*> measure collect_size")
  show "wf (collect_unvisited <*mlex*> measure collect_size)"
    by (simp add: wf_mlex)
next
  fix spec :: openAPISpec and s :: openAPISchema and st :: collectState and x :: string
  assume x: "x = openAPIRefName (s_Ref s)" "x \<notin> co_visited st"
  have "card ((optRefs (lookupPtr (spec_Schemas spec) x) \<union> specRefs spec) - insert x (co_visited st))
      < card ((optRefs (Some s) \<union> specRefs spec) - co_visited st)"
  proof (rule card_diff_less)
    show "finite (optRefs (Some s) \<union> specRefs spec)"
      by (rule finite_universe)
    show "optRefs (lookupPtr (spec_Schemas spec) x) \<union> specRefs spec
        \<subseteq> optRefs (Some s) \<union> specRefs spec"
      using optRefs_lookup [of spec x] by blast
    show "x \<in> optRefs (Some s) \<union> specRefs spec"
      using refs_Ref [of s] x(1) by (simp add: optRefs_Some)
    show "x \<notin> co_visited st"
      by (rule x(2))
  qed
  then show "(Inl (spec, lookupPtr (spec_Schemas spec) x, st\<lparr>co_visited := insert x (co_visited st)\<rparr>),
             Inl (spec, Some s, st)) \<in> collect_unvisited <*mlex*> measure collect_size"
    by (intro mlex_less) (simp add: collect_unvisited_def)
next
  fix spec :: openAPISpec and s :: openAPISchema and st x :: collectState
  assume x: "x = st\<lparr>co_required := co_required st \<union> set (s_Required s)\<rparr>"
  have "card ((\<Union> (optRefs ` set (s_AllOf s)) \<union> specRefs spec) - co_visited x)
      \<le> card ((optRefs (Some s) \<union> specRefs spec) - co_visited st)"
    by (rule card_diff_le) (use refs_AllOf [of s] x in \<open>auto simp: finite_schemaRefs finite_specRefs optRefs_Some\<close>)
  then show "(Inr (spec, s_AllOf s, x), Inl (spec, Some s, st))
      \<in> collect_unvisited <*mlex*> measure collect_size"
    using size_AllOf [of s] by (intro mlex_leq) (simp_all add: collect_unvisited_def collect_size_def)
next
  fix spec :: openAPISpec and s :: openAPISchema and st x xa :: collectState
    and x21 :: "openAPISchema option" and x22 :: "openAPISchema option list"
  assume x: "x = st\<lparr>co_required := co_required st \<union> set (s_Required s)\<rparr>"
    and xa: "xa = collectAllOf spec (s_AllOf s) x"
    and one: "s_OneOf s = x21 # x22"
    and dom: "collectOpenAPIObject_collectAllOf_dom (Inr (spec, s_AllOf s, x))"
  have v: "co_visited st \<subseteq> co_visited xa"
    using collect_visited_mono(2) [OF dom] x xa by simp
  have "card ((optRefs x21 \<union> specRefs spec) - co_visited xa)
      \<le> card ((optRefs (Some s) \<union> specRefs spec) - co_visited st)"
    by (rule card_diff_le) (use refs_OneOf [OF one] v in \<open>auto simp: finite_schemaRefs finite_specRefs optRefs_Some\<close>)
  then show "(Inl (spec, x21, xa), Inl (spec, Some s, st))
      \<in> collect_unvisited <*mlex*> measure collect_size"
    using size_OneOf [OF one] by (intro mlex_leq) (simp_all add: collect_unvisited_def collect_size_def)
next
  fix spec :: openAPISpec and s :: openAPISchema and st x xa xb :: collectState
    and x21 :: "openAPISchema option" and x22 :: "openAPISchema option list"
  assume x: "x = st\<lparr>co_required := co_required st \<union> set (s_Required s)\<rparr>"
    and xa: "xa = collectAllOf spec (s_AllOf s) x"
    and xb: "xb = (case s_OneOf s of [] \<Rightarrow> xa | sub # x \<Rightarrow> collectOpenAPIObject spec sub xa)"
    and any: "s_AnyOf s = x21 # x22"
    and dom1: "\<And>x21 x22. s_OneOf s = x21 # x22 \<Longrightarrow>
            collectOpenAPIObject_collectAllOf_dom (Inl (spec, x21, xa))"
    and dom: "collectOpenAPIObject_collectAllOf_dom (Inr (spec, s_AllOf s, x))"
  have v: "co_visited st \<subseteq> co_visited xa"
    using collect_visited_mono(2) [OF dom] x xa by simp
  have "co_visited xa \<subseteq> co_visited xb"
  proof (cases "s_OneOf s")
    case Nil
    then show ?thesis by (simp add: xb)
  next
    case (Cons y ys)
    from collect_visited_mono(1) [OF dom1 [OF Cons]] Cons show ?thesis
      by (simp add: xb)
  qed
  with v have v': "co_visited st \<subseteq> co_visited xb"
    by blast
  have "card ((optRefs x21 \<union> specRefs spec) - co_visited xb)
      \<le> card ((optRefs (Some s) \<union> specRefs spec) - co_visited st)"
    by (rule card_diff_le) (use refs_AnyOf [OF any] v' in \<open>auto simp: finite_schemaRefs finite_specRefs optRefs_Some\<close>)
  then show "(Inl (spec, x21, xb), Inl (spec, Some s, st))
      \<in> collect_unvisited <*mlex*> measure collect_size"
    using size_AnyOf [OF any] by (intro mlex_leq) (simp_all add: collect_unvisited_def collect_size_def)
next
  fix spec :: openAPISpec and sub :: "openAPISchema option"
    and subs :: "openAPISchema option list" and st :: collectState
  have "card ((optRefs sub \<union> specRefs spec) - co_visited st)
      \<le> card ((\<Union> (optRefs ` set (sub # subs)) \<union> specRefs spec) - co_visited st)"
    by (rule card_diff_le) (auto simp: finite_optRefs finite_specRefs)
  then show "(Inl (spec, sub, st), Inr (spec, sub # subs, st))
      \<in> collect_unvisited <*mlex*> measure collect_size"
    by (intro mlex_leq) (simp_all add: collect_unvisited_def collect_size_def)
next
  fix spec :: openAPISpec and sub :: "openAPISchema option"
    and subs :: "openAPISchema option list" and st :: collectState
  assume dom: "collectOpenAPIObject_collectAllOf_dom (Inl (spec, sub, st))"
  have "card ((\<Union> (optRefs ` set subs) \<union> specRefs spec) - co_visited (collectOpenAPIObject spec sub st))
      \<le> card ((\<Union> (optRefs ` set (sub # subs)) \<union> specRefs spec) - co_visited st)"
    by (rule card_diff_le)
       (use collect_visited_mono(1) [OF dom] in \<open>auto simp: finite_optRefs finite_specRefs\<close>)
  then show "(Inr (spec, subs, collectOpenAPIObject spec sub st), Inr (spec, sub # subs, st))
      \<in> collect_unvisited <*mlex*> measure collect_size"
    by (intro mlex_leq) (simp_all add: collect_unvisited_def collect_size_def)
qed

termination collectOpenAPIObject
  by (rule collect_dom_total)

definition emptyCollectState :: collectState where
  "emptyCollectState = \<lparr>co_visited = {}, co_props = [], co_required = {}\<rparr>"

definition stringProperty :: "openAPISchema option" where
  "stringProperty =
     Some (OpenAPISchema [] ''string'' [] [] [] None [] [] False None None None None [] [] [] [])"

definition cyclicSpec :: openAPISpec where
  "cyclicSpec =
     \<lparr>spec_Paths = [],
      spec_Schemas =
        [(''Node'', Some (OpenAPISchema [] ''object'' [] [] [(''id'', stringProperty)] None
                          [''id''] [] False None None None None []
                          [Some (refSchema ''#/components/schemas/Tree'')] [] [])),
         (''Tree'', Some (OpenAPISchema [] ''object'' [] [] [(''children'', stringProperty)] None
                          [] [] False None None None None []
                          [Some (refSchema ''#/components/schemas/Node'')] [] []))]\<rparr>"

section \<open>Component schemas and operations\<close>

text \<open>
  \<open>openAPITypeName\<close> recurses into the item schema of an array.  (Its \<open>spec\<close>
  argument is passed along and never read, as in the source.)
\<close>

lemma size_Items: "size_option size (s_Items s) < Suc (size s)"
  by (cases s) simp

function openAPITypeName :: "openAPISpec \<Rightarrow> openAPISchema option \<Rightarrow> string \<times> bool \<times> string" where
  "openAPITypeName spec None = (''Unknown'', False, [])"
| "openAPITypeName spec (Some s) =
     (if s_Ref s \<noteq> [] then
        (let refName = openAPIRefName (s_Ref s) in
         if refName = [] then (''Unknown'', False, [])
         else (refName, False, refName))
      else if s_Type s = ''array'' then
        (case openAPITypeName spec (s_Items s) of
           (itemType, _, itemRef) \<Rightarrow> (''[]'' @ itemType, True, itemRef))
      else if s_Type s = ''object'' then (''object'', False, [])
      else if s_Type s = ''string'' then (''string'', False, [])
      else if s_Type s = ''integer'' then
        (if s_Format s = ''int64'' then (''int64'', False, []) else (''int'', False, []))
      else if s_Type s = ''number'' then
        (if s_Format s = ''float'' then (''float32'', False, []) else (''float64'', False, []))
      else if s_Type s = ''boolean'' then (''bool'', False, [])
      else if length (s_AllOf s) > 0 then (''object'', False, [])
      else (''Unknown'', False, []))"
  by pat_completeness auto
termination
  by (relation "measure (\<lambda>(spec, so). size_option size so)") (simp_all add: size_Items)

definition openAPIConstraintsForSchema :: "openAPISchema option \<Rightarrow> FieldConstraints option" where
  "openAPIConstraintsForSchema s =
     (case s of
        None \<Rightarrow> None
      | Some s \<Rightarrow>
          (let enumStrings = (if length (s_Enum s) > 0 then s_Enum s else []);
               c = \<lparr>fc_Required = False, fc_Nullable = s_Nullable s,
                    fc_MinLength = s_MinLength s, fc_MaxLength = s_MaxLength s,
                    fc_Minimum = s_Minimum s, fc_Maximum = s_Maximum s,
                    fc_Pattern = s_Pattern s, fc_Format = s_Format s,
                    fc_Enum = enumStrings\<rparr>
           in if constraintsEmpty (Some c) then None else Some c))"

text \<open>
  The body of the loop of \<open>openAPISchemaToTableMetadata\<close> for one property.  The
  column reads \<open>ps.Description\<close>, so a property whose schema is \<open>null\<close> is a nil
  dereference.
\<close>

definition propertyColumn ::
  "openAPISpec \<Rightarrow> string set \<Rightarrow> string \<Rightarrow> openAPISchema option \<Rightarrow> error + ColumnInfo" where
  "propertyColumn spec required propName ps =
     (case openAPITypeName spec ps of
        (typeName, isArray, refName) \<Rightarrow>
          (let c = openAPIConstraintsForSchema ps;
               c = (if propName \<in> required
                    then (case c of
                            None \<Rightarrow> Some \<lparr>fc_Required = True, fc_Nullable = False,
                                           fc_MinLength = None, fc_MaxLength = None,
                                           fc_Minimum = None, fc_Maximum = None,
                                           fc_Pattern = [], fc_Format = [], fc_Enum = []\<rparr>
                          | Some c \<Rightarrow> Some (c\<lparr>fc_Required := True\<rparr>))
                    else c)
           in case ps of
                None \<Rightarrow> Inl NilPointerDereference
              | Some p \<Rightarrow>
                  Inr \<lparr>col_Name = propName, col_JSONName = propName, col_Type = typeName,
                       col_Validation = [], col_Description = s_Description p,
                       col_Additional = [], col_Constraints = c, col_Ref = refName,
                       col_IsArray = isArray, col_Source = ''openapi''\<rparr>))"

fun propertyColumns ::
  "openAPISpec \<Rightarrow> (string \<times> openAPISchema option) list \<Rightarrow> string set \<Rightarrow> string list
     \<Rightarrow> ColumnInfo list \<Rightarrow> error + ColumnInfo list" where
  "propertyColumns spec props required [] cols = Inr cols"
| "propertyColumns spec props required (propName # keys) cols =
     (case propertyColumn spec required propName (lookupPtr props propName) of
        Inl e \<Rightarrow> Inl e
      | Inr c \<Rightarrow> propertyColumns spec props required keys (cols @ [c]))"

definition openAPISchemaToTableMetadata ::
  "openAPISpec \<Rightarrow> string \<Rightarrow> openAPISchema option \<Rightarrow> error + TableMetadata" where
  "openAPISchemaToTableMetadata spec schemaName schema =
     (let st = collectOpenAPIObject spec schema
                 \<lparr>co_visited = {}, co_props = [], co_required = {}\<rparr>;
          keys = sort (map fst (co_props st))
      in case propertyColumns spec (co_props st) (co_required st) keys [] of
           Inl e \<Rightarrow> Inl e
         | Inr cols \<Rightarrow>
             Inr \<lparr>tm_StructName = schemaName,
                  tm_NormalizedName = normalizeEntityName schemaName,
                  tm_Source = ''openapi'',
                  tm_Columns = cols, tm_Relations = [], tm_Operations = []\<rparr>)"

text \<open>
  \<open>openAPIOperationInfo\<close> fails only through the nil dereference of
  \<open>pickJSONMediaSchema\<close>.
\<close>

definition openAPIOperationInfo ::
  "openAPISpec \<Rightarrow> string \<Rightarrow> string \<Rightarrow> openAPIOperation \<Rightarrow> error + OperationInfo" where
  "openAPIOperationInfo spec path method op =
     (case pickOpenAPISchemaRefName (oo_RequestBody op) of
        Inl e \<Rightarrow> Inl e
      | Inr reqSchema \<Rightarrow>
          (case pickOpenAPIResponseSchemaRefName (oo_Responses op) of
             Inl e \<Rightarrow> Inl e
           | Inr respSchema \<Rightarrow>
               Inr \<lparr>op_Method = method, op_Path = path, op_OperationID = oo_OperationID op,
                    op_Summary = oo_Summary op, op_Tags = oo_Tags op,
                    op_RequestSchema = reqSchema, op_ResponseSchema = respSchema,
                    op_Source = ''openapi''\<rparr>))"

definition entityFromPathHeuristic :: "runtime \<Rightarrow> string \<Rightarrow> string" where
  "entityFromPathHeuristic rt p =
     (let trim = Trim_char p (CHR ''/'') in
      if trim = [] then []
      else
        (let parts = Split trim (CHR ''/'');
             parts = (if length parts > 0 \<and> (parts ! 0 = ''api'' \<or> HasPrefix (parts ! 0) ''v'')
                      then drop 1 parts else parts)
         in if length parts = 0 then []
            else
              (let last = parts ! (length parts - 1);
                   last = (if HasPrefix last ''{'' \<and> length parts > 1
                           then parts ! (length parts - 2) else last);
                   last = TrimSpace last;
                   last = TrimSuffix last ''s''
               in if last = [] then [] else ToUpper rt (take 1 last) @ drop 1 last)))"

definition inferEntityNameForOperation :: "runtime \<Rightarrow> OperationInfo \<Rightarrow> string" where
  "inferEntityNameForOperation rt oi =
     (if op_RequestSchema oi \<noteq> [] then op_RequestSchema oi
      else if op_ResponseSchema oi \<noteq> [] then op_ResponseSchema oi
      else if length (op_Tags oi) > 0 \<and> op_Tags oi ! 0 \<noteq> [] then op_Tags oi ! 0
      else entityFromPathHeuristic rt (op_Path oi))"

text \<open>
  \<open>parseOpenAPIFile\<close>, from the decoded document on (reading and decoding the file
  are outside the model).  Its first loop stores one record per component schema, its
  second loop (over paths, then methods) appends every operation to \<open>opsByNorm\<close> under
  its normalized entity name, and its last loop appends to every record the operations
  filed under the record's normalized name.  A panic anywhere is the error result.
\<close>

type_synonym opsByNorm = "string \<rightharpoonup> OperationInfo list"

definition addOperation :: "runtime \<Rightarrow> opsByNorm \<Rightarrow> OperationInfo \<Rightarrow> opsByNorm" where
  "addOperation rt opsByNorm oi =
     (let norm = normalizeEntityName (inferEntityNameForOperation rt oi) in
      if norm = [] then opsByNorm
      else opsByNorm(norm \<mapsto> (case opsByNorm norm of None \<Rightarrow> [] | Some ops \<Rightarrow> ops) @ [oi]))"

fun collectMethodOperations ::
  "runtime \<Rightarrow> openAPISpec \<Rightarrow> string \<Rightarrow> (string \<times> openAPIOperation option) list \<Rightarrow> opsByNorm
     \<Rightarrow> error + opsByNorm" where
  "collectMethodOperations rt spec p [] opsByNorm = Inr opsByNorm"
| "collectMethodOperations rt spec p ((method, op) # methods) opsByNorm =
     (case op of
        None \<Rightarrow> collectMethodOperations rt spec p methods opsByNorm
      | Some op \<Rightarrow>
          (case openAPIOperationInfo spec p (ToUpper rt method) op of
             Inl e \<Rightarrow> Inl e
           | Inr oi \<Rightarrow> collectMethodOperations rt spec p methods (addOperation rt opsByNorm oi)))"

fun collectPathOperations ::
  "runtime \<Rightarrow> openAPISpec \<Rightarrow> (string \<times> (string \<times> openAPIOperation option) list) list \<Rightarrow> opsByNorm
     \<Rightarrow> error + opsByNorm" where
  "collectPathOperations rt spec [] opsByNorm = Inr opsByNorm"
| "collectPathOperations rt spec ((p, methods) # paths) opsByNorm =
     (case collectMethodOperations rt spec p methods opsByNorm of
        Inl e \<Rightarrow> Inl e
      | Inr opsByNorm \<Rightarrow> collectPathOperations rt spec paths opsByNorm)"

fun collectComponentSchemas ::
  "openAPISpec \<Rightarrow> (string \<times> openAPISchema option) list \<Rightarrow> SchemaMap \<Rightarrow> error + SchemaMap" where
  "collectComponentSchemas spec [] out = Inr out"
| "collectComponentSchemas spec ((schemaName, schema) # schemas) out =
     (case openAPISchemaToTableMetadata spec schemaName schema of
        Inl e \<Rightarrow> Inl e
      | Inr meta \<Rightarrow> collectComponentSchemas spec schemas (putSchema out meta))"

definition attachOperations :: "opsByNorm \<Rightarrow> SchemaMap \<Rightarrow> SchemaMap" where
  "attachOperations opsByNorm out =
     map (\<lambda>(k, meta).
            (k, case opsByNorm (tm_NormalizedName meta) of
                  Some ops \<Rightarrow> meta\<lparr>tm_Operations := tm_Operations meta @ ops\<rparr>
                | None \<Rightarrow> meta)) out"

definition parseOpenAPIFile :: "runtime \<Rightarrow> openAPISpec \<Rightarrow> error + SchemaMap" where
  "parseOpenAPIFile rt spec =
     (case collectComponentSchemas spec (spec_Schemas spec) [] of
        Inl e \<Rightarrow> Inl e
      | Inr out \<Rightarrow>
          (case collectPathOperations rt spec (spec_Paths spec) Map.empty of
             Inl e \<Rightarrow> Inl e
           | Inr opsByNorm \<Rightarrow> Inr (attachOperations opsByNorm out)))"

text \<open>Example documents: \<open>POST /users\<close> with the request schema \<open>CreateUserReq\<close>.\<close>

definition objectSchema :: "(string \<times> openAPISchema option) list \<Rightarrow> openAPISchema" where
  "objectSchema props =
     OpenAPISchema [] ''object'' [] [] props None [] [] False None None None None [] [] [] []"

definition createUserOperation :: openAPIOperation where
  "createUserOperation =
     \<lparr>oo_OperationID = ''createUser'', oo_Summary = [], oo_Tags = [],
      oo_RequestBody = Some \<lparr>rb_Content =
         [(''application/json'',
           Some \<lparr>mt_Schema = Some (refSchema ''#/components/schemas/CreateUserReq'')\<rparr>)]\<rparr>,
      oo_Responses = []\<rparr>"

definition userSpec :: openAPISpec where
  "userSpec =
     \<lparr>spec_Paths = [(''/users'', [(''post'', Some createUserOperation)])],
      spec_Schemas =
        [(''User'', Some (objectSchema [(''name'', stringProperty)])),
         (''CreateUserReq'', Some (objectSchema [(''name'', stringProperty)]))]\<rparr>"

definition userOnlySpec :: openAPISpec where
  "userOnlySpec =
     \<lparr>spec_Paths = [(''/users'', [(''post'', Some createUserOperation)])],
      spec_Schemas = [(''User'', Some (objectSchema [(''name'', stringProperty)]))]\<rparr>"

text \<open>Notions used to state the invariants of the three loops.\<close>

definition normOf :: "runtime \<Rightarrow> OperationInfo \<Rightarrow> string" where
  "normOf rt oi = normalizeEntityName (inferEntityNameForOperation rt oi)"

definition opsOf :: "opsByNorm \<Rightarrow> string \<Rightarrow> OperationInfo list" where
  "opsOf m n = (case m n of None \<Rightarrow> [] | Some ops \<Rightarrow> ops)"

definition opsNormOK :: "runtime \<Rightarrow> opsByNorm \<Rightarrow> bool" where
  "opsNormOK rt m = (\<forall>n oi. oi \<in> set (opsOf m n) \<longrightarrow> normOf rt oi = n)"

definition fromComponents :: "(string \<times> openAPISchema option) list \<Rightarrow> TableMetadata \<Rightarrow> bool" where
  "fromComponents schemas meta =
     (tm_Operations meta = [] \<and>
      (\<exists>name \<in> fst ` set schemas. tm_NormalizedName meta = normalizeEntityName name \<and>
          tm_StructName meta = name))"

definition exampleCreateUserOp :: OperationInfo where
  "exampleCreateUserOp =
     \<lparr>op_Method = ''POST'', op_Path = ''/users'', op_OperationID = ''createUser'',
      op_Summary = [], op_Tags = [], op_RequestSchema = ''CreateUserReq'',
      op_ResponseSchema = [], op_Source = ''openapi''\<rparr>"

definition exampleNameColumn :: ColumnInfo where
  "exampleNameColumn =
     \<lparr>col_Name = ''name'', col_JSONName = ''name'', col_Type = ''string'',
      col_Validation = [], col_Description = [], col_Additional = [],
      col_Constraints = None, col_Ref = [], col_IsArray = False, col_Source = ''openapi''\<rparr>"

definition exampleUserMeta :: TableMetadata where
  "exampleUserMeta =
     \<lparr>tm_StructName = ''User'', tm_NormalizedName = ''User'', tm_Source = ''openapi'',
      tm_Columns = [exampleNameColumn], tm_Relations = [], tm_Operations = []\<rparr>"

definition exampleCreateUserReqMeta :: TableMetadata where
  "exampleCreateUserReqMeta =
     \<lparr>tm_StructName = ''CreateUserReq'', tm_NormalizedName = ''CreateUser'',
      tm_Source = ''openapi'', tm_Columns = [exampleNameColumn], tm_Relations = [],
      tm_Operations = [exampleCreateUserOp]\<rparr>"

section \<open>Properties of the name normalizer\<close>

lemmas string_prims = HasPrefix_def TrimPrefix_def HasSuffix_def TrimSuffix_def

lemmas normalize_eval =
  normalizeEntityName_def stripAffixes_def prefixes_def suffixes_def string_prims

text \<open>
  C2 (as stated): \<open>normalizeEntityName\<close> returns a non-empty string for every input,
  the empty string included.  The empty raw name is a counterexample: nothing is
  stripped, the remainder is empty, and the fallback returns the (empty) raw name.
\<close>

theorem normalizeEntityName_empty_input: "normalizeEntityName [] = []"
  by (simp add: normalize_eval)

text \<open>
  C2 (amended): \<open>normalizeEntityName\<close> is a total function that returns a non-empty
  string for every non-empty raw name, and the empty string exactly for the empty raw
  name; when stripping removes the whole string it returns the raw name unchanged, and
  otherwise it returns what stripping left.
\<close>

theorem normalizeEntityName_nonempty:
  "(normalizeEntityName name = [] \<longleftrightarrow> name = []) \<and>
   (stripAffixes name = [] \<longrightarrow> normalizeEntityName name = name) \<and>
   (stripAffixes name \<noteq> [] \<longrightarrow> normalizeEntityName name = stripAffixes name)"
proof -
  have "stripAffixes [] = []"
    by (simp add: stripAffixes_def prefixes_def suffixes_def string_prims)
  then show ?thesis
    by (auto simp: normalizeEntityName_def Let_def)
qed

theorem normalizeEntityName_nonempty_witness:
  "stripAffixes ''Req'' = [] \<and> normalizeEntityName ''Req'' = ''Req'' \<and>
   stripAffixes ''Users'' = ''User'' \<and> normalizeEntityName ''Users'' = ''User''"
proof -
  have a: "stripAffixes ''Req'' = []"
    by (simp add: stripAffixes_def prefixes_def suffixes_def string_prims)
  have b: "stripAffixes ''Users'' = ''User''"
    by (simp add: stripAffixes_def prefixes_def suffixes_def string_prims)
  show ?thesis
    using normalizeEntityName_nonempty [of "''Req''"] normalizeEntityName_nonempty [of "''Users''"] a b
    by simp
qed

section \<open>Properties of the constraint merge\<close>

lemma pick_lower_int: "pickIntPtrMax a b = stricterLower a b"
  by (auto simp: pickIntPtrMax_def stricterLower_def split: option.splits)

lemma pick_upper_int: "pickIntPtrMin a b = stricterUpper a b"
  by (auto simp: pickIntPtrMin_def stricterUpper_def split: option.splits)

lemma pick_lower_real: "pickFloatPtrMax a b = stricterLower a b"
  by (auto simp: pickFloatPtrMax_def stricterLower_def split: option.splits)

lemma pick_upper_real: "pickFloatPtrMin a b = stricterUpper a b"
  by (auto simp: pickFloatPtrMin_def stricterUpper_def split: option.splits)

lemma stricterLower_commute: "stricterLower a b = stricterLower b a"
  by (auto simp: stricterLower_def max.commute split: option.splits)

lemma stricterUpper_commute: "stricterUpper a b = stricterUpper b a"
  by (auto simp: stricterUpper_def min.commute split: option.splits)

lemma stricterLower_None: "stricterLower a b = None \<longleftrightarrow> a = None \<and> b = None"
  by (auto simp: stricterLower_def split: option.splits)

lemma stricterUpper_None: "stricterUpper a b = None \<longleftrightarrow> a = None \<and> b = None"
  by (auto simp: stricterUpper_def split: option.splits)

lemmas picks = pick_lower_int pick_upper_int pick_lower_real pick_upper_real

lemma constraintsEmpty_Some: "constraintsEmpty (Some c) \<longleftrightarrow> allDefault c"
  by (cases c) (auto simp add: constraintsEmpty_def allDefault_def)

lemma mergeConstraints_Some_Some:
  "mergeConstraints (Some a) (Some b) =
     (if allDefault (mergedOut a b) then None else Some (mergedOut a b))"
  by (cases a)
     (simp add: mergeConstraints_def Let_def picks constraintsEmpty_Some mergedOut_def)

lemma allDefault_mergedOut: "allDefault (mergedOut a b) \<longleftrightarrow> allDefault a \<and> allDefault b"
  by (cases a; cases b)
     (simp add: allDefault_def mergedOut_def stricterLower_None stricterUpper_None, blast)

lemma boundsOf_merge:
  "boundsOf (mergeConstraints (Some a) (Some b)) =
     (stricterLower (fc_MinLength a) (fc_MinLength b),
      stricterUpper (fc_MaxLength a) (fc_MaxLength b),
      stricterLower (fc_Minimum a) (fc_Minimum b),
      stricterUpper (fc_Maximum a) (fc_Maximum b))"
proof (cases "allDefault (mergedOut a b)")
  case True
  then have "allDefault a" "allDefault b"
    by (simp_all add: allDefault_mergedOut)
  then have "fc_MinLength a = None" "fc_MinLength b = None"
    "fc_MaxLength a = None" "fc_MaxLength b = None"
    "fc_Minimum a = None" "fc_Minimum b = None"
    "fc_Maximum a = None" "fc_Maximum b = None"
    by (simp_all add: allDefault_def)
  with True show ?thesis
    by (simp add: mergeConstraints_Some_Some boundsOf_def stricterLower_def stricterUpper_def)
next
  case False
  then show ?thesis
    by (simp add: mergeConstraints_Some_Some boundsOf_def mergedOut_def)
qed

text \<open>
  C4: for two present constraint sets, \<open>mergeConstraints\<close> keeps the larger of the two
  lower bounds (minimum length, minimum value) and the smaller of the two upper bounds
  (maximum length, maximum value), an absent bound being no constraint; the four merged
  bounds do not depend on the order of the arguments; and the result is absent exactly
  when every field of the merged set is default, so an all-default constraint object is
  never returned.
\<close>

theorem mergeConstraints_stricter_bounds:
  "boundsOf (mergeConstraints (Some a) (Some b)) =
     (stricterLower (fc_MinLength a) (fc_MinLength b),
      stricterUpper (fc_MaxLength a) (fc_MaxLength b),
      stricterLower (fc_Minimum a) (fc_Minimum b),
      stricterUpper (fc_Maximum a) (fc_Maximum b)) \<and>
   boundsOf (mergeConstraints (Some a) (Some b)) = boundsOf (mergeConstraints (Some b) (Some a)) \<and>
   (mergeConstraints (Some a) (Some b) = None \<longleftrightarrow> allDefault a \<and> allDefault b) \<and>
   (\<forall>c. mergeConstraints (Some a) (Some b) = Some c \<longrightarrow>
        \<not> allDefault c \<and> \<not> constraintsEmpty (Some c))"
proof -
  have comm: "boundsOf (mergeConstraints (Some a) (Some b)) =
      boundsOf (mergeConstraints (Some b) (Some a))"
    unfolding boundsOf_merge
    by (simp add: stricterLower_commute [of "fc_MinLength a"] stricterUpper_commute [of "fc_MaxLength a"]
        stricterLower_commute [of "fc_Minimum a"] stricterUpper_commute [of "fc_Maximum a"])
  have none: "mergeConstraints (Some a) (Some b) = None \<longleftrightarrow> allDefault a \<and> allDefault b"
    by (simp add: mergeConstraints_Some_Some allDefault_mergedOut)
  have some: "\<forall>c. mergeConstraints (Some a) (Some b) = Some c \<longrightarrow>
        \<not> allDefault c \<and> \<not> constraintsEmpty (Some c)"
    by (auto simp: mergeConstraints_Some_Some constraintsEmpty_Some split: if_splits)
  show ?thesis
    using boundsOf_merge comm none some by blast
qed

text \<open>
  The specification's example: minimum length 3 against 5 gives 5, maximum length 10
  against 7 gives 7, in either order; two all-default sets merge to an absent one.
\<close>

theorem mergeConstraints_stricter_bounds_witness:
  "boundsOf (mergeConstraints
      (Some \<lparr>fc_Required = False, fc_Nullable = False, fc_MinLength = Some 3,
             fc_MaxLength = Some 10, fc_Minimum = None, fc_Maximum = None,
             fc_Pattern = [], fc_Format = [], fc_Enum = []\<rparr>)
      (Some \<lparr>fc_Required = False, fc_Nullable = False, fc_MinLength = Some 5,
             fc_MaxLength = Some 7, fc_Minimum = None, fc_Maximum = None,
             fc_Pattern = [], fc_Format = [], fc_Enum = []\<rparr>))
     = (Some 5, Some 7, None, None) \<and>
   boundsOf (mergeConstraints
      (Some \<lparr>fc_Required = False, fc_Nullable = False, fc_MinLength = Some 5,
             fc_MaxLength = Some 7, fc_Minimum = None, fc_Maximum = None,
             fc_Pattern = [], fc_Format = [], fc_Enum = []\<rparr>)
      (Some \<lparr>fc_Required = False, fc_Nullable = False, fc_MinLength = Some 3,
             fc_MaxLength = Some 10, fc_Minimum = None, fc_Maximum = None,
             fc_Pattern = [], fc_Format = [], fc_Enum = []\<rparr>))
     = (Some 5, Some 7, None, None)"
  (is "boundsOf (mergeConstraints (Some ?a) (Some ?b)) = ?r \<and> _")
proof -
  have ab: "boundsOf (mergeConstraints (Some ?a) (Some ?b)) = ?r"
    by (simp add: mergeConstraints_stricter_bounds [of ?a ?b, THEN conjunct1]
        stricterLower_def stricterUpper_def)
  have ba: "boundsOf (mergeConstraints (Some ?b) (Some ?a)) = ?r"
    by (simp add: mergeConstraints_stricter_bounds [of ?b ?a, THEN conjunct1]
        stricterLower_def stricterUpper_def)
  from ab ba show ?thesis by (rule conjI)
qed

section \<open>Merging a record with itself\<close>

lemma columnKey_wire:
  "columnKey rt c = removeAll_char (CHR ''-'') (removeAll_char (CHR ''_'') (ToLower rt (TrimSpace (wireName c))))"
  by (simp add: columnKey_def wireName_def Let_def)

lemma TrimSpace_Nil: "TrimSpace [] = []"
  by code_simp

lemma ToLower_Nil: "ToLower rt [] = []"
  by (simp add: ToLower_def isASCII_def)

lemma columnKey_empty_wire: "wireName c = [] \<Longrightarrow> columnKey rt c = []"
  by (simp add: columnKey_wire TrimSpace_Nil ToLower_Nil removeAll_char_def)

lemma mergeColumn_JSONName:
  "col_JSONName (mergeColumn a b) = (if col_JSONName a = [] then col_JSONName b else col_JSONName a)"
  by (simp add: mergeColumn_def Let_def)

lemma mergeColumn_Name:
  "col_Name (mergeColumn a b) = (if col_Name a = [] then col_Name b else col_Name a)"
  by (simp add: mergeColumn_def Let_def)

lemma wireName_mergeColumn:
  "wireName (mergeColumn a b) =
     (if col_JSONName a \<noteq> [] then col_JSONName a
      else if col_JSONName b \<noteq> [] then col_JSONName b
      else if col_Name a = [] then col_Name b else col_Name a)"
  by (simp add: wireName_def mergeColumn_JSONName mergeColumn_Name)

lemma columnKey_mergeColumn:
  assumes "columnKey rt a = columnKey rt b" and "columnKey rt a \<noteq> []"
  shows "columnKey rt (mergeColumn a b) = columnKey rt a"
proof -
  have na: "wireName a \<noteq> []"
    using assms(2) columnKey_empty_wire by blast
  have "wireName (mergeColumn a b) = wireName a \<or> wireName (mergeColumn a b) = wireName b"
    unfolding wireName_mergeColumn using na by (simp add: wireName_def)
  then show ?thesis
    using assms(1) by (auto simp: columnKey_wire)
qed

lemma columnIndex_prefix:
  "n \<le> length dst \<Longrightarrow>
   (\<forall>k i. fold (\<lambda>i index. index(columnKey rt (dst ! i) \<mapsto> i)) [0..<n] Map.empty k = Some i
        \<longrightarrow> i < n \<and> columnKey rt (dst ! i) = k) \<and>
   (\<forall>j<n. fold (\<lambda>i index. index(columnKey rt (dst ! i) \<mapsto> i)) [0..<n] Map.empty (columnKey rt (dst ! j)) \<noteq> None)"
proof (induction n)
  case 0
  then show ?case by simp
next
  case (Suc n)
  then show ?case
    by (auto simp: less_Suc_eq split: if_splits)
qed

lemma columnIndex_ok: "index_ok rt dst (columnIndex rt dst)"
  using columnIndex_prefix [of "length dst" dst]
  by (simp add: index_ok_def columnIndex_def)

lemma columnIndex_covers: "c \<in> set dst \<Longrightarrow> columnKey rt c \<in> dom (columnIndex rt dst)"
  using columnIndex_prefix [of "length dst" dst]
  by (auto simp: columnIndex_def in_set_conv_nth)

lemma mergeColumns_loop_keys:
  "index_ok rt dst index \<Longrightarrow>
   \<forall>c \<in> set src. columnKey rt c \<noteq> [] \<longrightarrow> columnKey rt c \<in> dom index \<Longrightarrow>
   map (columnKey rt) (mergeColumns_loop rt dst index src) = map (columnKey rt) dst"
proof (induction src arbitrary: dst)
  case Nil
  then show ?case by simp
next
  case (Cons c src)
  show ?case
  proof (cases "columnKey rt c = []")
    case True
    with Cons show ?thesis by simp
  next
    case False
    with Cons.prems obtain i where i: "index (columnKey rt c) = Some i"
      by auto
    with Cons.prems(1) have il: "i < length dst" and ik: "columnKey rt (dst ! i) = columnKey rt c"
      by (auto simp: index_ok_def)
    let ?dst = "dst[i := mergeColumn (dst ! i) c]"
    have km: "columnKey rt (mergeColumn (dst ! i) c) = columnKey rt (dst ! i)"
      using columnKey_mergeColumn [of rt "dst ! i" c] ik False by simp
    have same: "map (columnKey rt) ?dst = map (columnKey rt) dst"
      using il km by (simp add: map_update list_update_same_conv)
    have ok: "index_ok rt ?dst index"
      unfolding index_ok_def
    proof (intro allI impI)
      fix k j assume "index k = Some j"
      with Cons.prems(1) have jl: "j < length dst" and jk: "columnKey rt (dst ! j) = k"
        by (auto simp: index_ok_def)
      have "columnKey rt (?dst ! j) = map (columnKey rt) ?dst ! j"
        using jl by simp
      also have "\<dots> = columnKey rt (dst ! j)"
        using jl by (simp only: same nth_map)
      finally show "j < length ?dst \<and> columnKey rt (?dst ! j) = k"
        using jl jk by simp
    qed
    have "map (columnKey rt) (mergeColumns_loop rt ?dst index src) = map (columnKey rt) ?dst"
      using Cons.IH [OF ok] Cons.prems(2) by simp
    with same i False show ?thesis by simp
  qed
qed

lemma mergeColumns_self_keys: "map (columnKey rt) (mergeColumns rt A A) = map (columnKey rt) A"
  unfolding mergeColumns_def
  by (rule mergeColumns_loop_keys) (auto simp: columnIndex_ok columnIndex_covers)

lemma mergeRelations_loop_seen:
  "\<forall>r \<in> set src. relationKey rt r \<noteq> [] \<longrightarrow> relationKey rt r \<in> seen \<Longrightarrow>
   mergeRelations_loop rt dst seen src = dst"
  by (induction src arbitrary: dst) (auto simp: Let_def)

lemma mergeOperations_loop_seen:
  "\<forall>r \<in> set src. operationKey r \<noteq> [] \<longrightarrow> operationKey r \<in> seen \<Longrightarrow>
   mergeOperations_loop dst seen src = dst"
  by (induction src arbitrary: dst) (auto simp: Let_def)

lemma mergeRelations_self: "mergeRelations rt A A = A"
  unfolding mergeRelations_def by (rule mergeRelations_loop_seen) auto

lemma mergeOperations_self: "mergeOperations A A = A"
  unfolding mergeOperations_def by (rule mergeOperations_loop_seen) auto

lemma clone_fields:
  "tm_Columns (cloneTableMetadata A) = tm_Columns A"
  "tm_Relations (cloneTableMetadata A) = tm_Relations A"
  "tm_Operations (cloneTableMetadata A) = tm_Operations A"
  by (simp_all add: cloneTableMetadata_def)

lemma mergeTableMetadata_fields:
  "tm_Columns (mergeTableMetadata rt d s) = mergeColumns rt (tm_Columns d) (tm_Columns s)"
  "tm_Relations (mergeTableMetadata rt d s) = mergeRelations rt (tm_Relations d) (tm_Relations s)"
  "tm_Operations (mergeTableMetadata rt d s) = mergeOperations (tm_Operations d) (tm_Operations s)"
  by (simp_all add: mergeTableMetadata_def Let_def)

text \<open>
  C5: merging a record into a clone of itself duplicates nothing.  The merged record has
  the same column identity keys at the same positions (so the same number of columns and
  of distinct column keys), and exactly the relations and operations of the original (so
  the same number of distinct relation and operation identities).
\<close>

theorem mergeTableMetadata_self:
  "map (columnKey rt) (tm_Columns (mergeTableMetadata rt (cloneTableMetadata A) A)) = map (columnKey rt) (tm_Columns A) \<and>
   length (tm_Columns (mergeTableMetadata rt (cloneTableMetadata A) A)) = length (tm_Columns A) \<and>
   card (columnKey rt ` set (tm_Columns (mergeTableMetadata rt (cloneTableMetadata A) A)))
     = card (columnKey rt ` set (tm_Columns A)) \<and>
   tm_Relations (mergeTableMetadata rt (cloneTableMetadata A) A) = tm_Relations A \<and>
   card (relationKey rt ` set (tm_Relations (mergeTableMetadata rt (cloneTableMetadata A) A)))
     = card (relationKey rt ` set (tm_Relations A)) \<and>
   tm_Operations (mergeTableMetadata rt (cloneTableMetadata A) A) = tm_Operations A \<and>
   card (operationKey ` set (tm_Operations (mergeTableMetadata rt (cloneTableMetadata A) A)))
     = card (operationKey ` set (tm_Operations A))"
proof -
  let ?r = "mergeTableMetadata rt (cloneTableMetadata A) A"
  have k: "map (columnKey rt) (tm_Columns ?r) = map (columnKey rt) (tm_Columns A)"
    by (simp add: mergeTableMetadata_fields clone_fields mergeColumns_self_keys)
  then have l: "length (tm_Columns ?r) = length (tm_Columns A)"
    by (rule map_eq_imp_length_eq)
  have "columnKey rt ` set (tm_Columns ?r) = set (map (columnKey rt) (tm_Columns ?r))"
    by simp
  also have "\<dots> = columnKey rt ` set (tm_Columns A)"
    by (simp only: k set_map)
  finally have c: "card (columnKey rt ` set (tm_Columns ?r)) = card (columnKey rt ` set (tm_Columns A))"
    by simp
  have r: "tm_Relations ?r = tm_Relations A"
    by (simp add: mergeTableMetadata_fields clone_fields mergeRelations_self)
  have p: "tm_Operations ?r = tm_Operations A"
    by (simp add: mergeTableMetadata_fields clone_fields mergeOperations_self)
  show ?thesis
    using k l c r p by simp
qed

text \<open>
  The record \<open>UserReq\<close> merged into its own clone keeps its one column key (and is
  marked as merged).
\<close>

theorem mergeTableMetadata_self_witness:
  "\<forall>rt.
     map (columnKey rt) (tm_Columns (mergeTableMetadata rt (cloneTableMetadata exampleUserReq) exampleUserReq))
       = [''name''] \<and>
     tm_Relations (mergeTableMetadata rt (cloneTableMetadata exampleUserReq) exampleUserReq) = [] \<and>
     tm_Operations (mergeTableMetadata rt (cloneTableMetadata exampleUserReq) exampleUserReq) = []"
proof
  fix rt
  have k: "map (columnKey rt) (tm_Columns exampleUserReq) = [''name'']"
    by code_simp
  have r: "tm_Relations exampleUserReq = []" "tm_Operations exampleUserReq = []"
    by (simp_all add: exampleUserReq_def)
  from mergeTableMetadata_self [of rt exampleUserReq] k r
  show "map (columnKey rt) (tm_Columns (mergeTableMetadata rt (cloneTableMetadata exampleUserReq) exampleUserReq))
       = [''name''] \<and>
     tm_Relations (mergeTableMetadata rt (cloneTableMetadata exampleUserReq) exampleUserReq) = [] \<and>
     tm_Operations (mergeTableMetadata rt (cloneTableMetadata exampleUserReq) exampleUserReq) = []"
    by simp
qed

section \<open>Dependence of consolidation on the iteration order\<close>

text \<open>
  C1: the consolidated entity list should not depend on the order in which the
  accumulator is iterated.  On the accumulator holding \<open>UserReq\<close> and \<open>UserRes\<close> the
  two iteration orders give different entity lists: the merged record keeps the struct
  name and the column description of whichever record is met first.
\<close>

theorem consolidate_depends_on_iteration_order:
  "tm_NormalizedName exampleUserReq = normalizeEntityName (tm_StructName exampleUserReq) \<and>
   tm_NormalizedName exampleUserRes = normalizeEntityName (tm_StructName exampleUserRes) \<and>
   cs_EntityList (consolidateByNormalizedName rt
       [(''UserReq'', exampleUserReq), (''UserRes'', exampleUserRes)]) =
     [\<lparr>tm_StructName = ''UserReq'', tm_NormalizedName = ''User'', tm_Source = ''merged'',
       tm_Columns = [\<lparr>col_Name = ''Name'', col_JSONName = ''name'', col_Type = ''string'',
                      col_Validation = [], col_Description = ''Login name'',
                      col_Additional = [], col_Constraints = None, col_Ref = [],
                      col_IsArray = False, col_Source = ''go:api''\<rparr>],
       tm_Relations = [], tm_Operations = []\<rparr>] \<and>
   cs_EntityList (consolidateByNormalizedName rt
       [(''UserRes'', exampleUserRes), (''UserReq'', exampleUserReq)]) =
     [\<lparr>tm_StructName = ''UserRes'', tm_NormalizedName = ''User'', tm_Source = ''merged'',
       tm_Columns = [\<lparr>col_Name = ''Name'', col_JSONName = ''name'', col_Type = ''string'',
                      col_Validation = [], col_Description = ''Display name'',
                      col_Additional = [], col_Constraints = None, col_Ref = [],
                      col_IsArray = False, col_Source = ''go:api''\<rparr>],
       tm_Relations = [], tm_Operations = []\<rparr>]"
  by code_simp

section \<open>Properties of the accumulator insertion\<close>

lemma update_absent: "map_of al k = None \<Longrightarrow> AList.update k v al = al @ [(k, v)]"
  by (induction al) (auto split: if_splits)

lemma putSchema_loop_spec:
  "\<exists>k. map_of schema k = None \<and> putSchema_loop schema table base key i = schema @ [(k, table)] \<and>
       (k = key \<or> (map_of schema key \<noteq> None \<and>
          (\<exists>j\<ge>i. k = suffixedKey base j \<and> (\<forall>j'. i \<le> j' \<and> j' < j \<longrightarrow> map_of schema (suffixedKey base j') \<noteq> None))))"
proof (induction schema table base key i rule: putSchema_loop.induct)
  case (1 schema table base key i)
  show ?case
  proof (cases "map_of schema key = None")
    case True
    then show ?thesis
      by (subst putSchema_loop.simps) (auto simp: update_absent)
  next
    case False
    from "1.IH" [OF False] obtain k where k: "map_of schema k = None"
      "putSchema_loop schema table base (suffixedKey base i) (i + 1) = schema @ [(k, table)]"
      "k = suffixedKey base i \<or> (map_of schema (suffixedKey base i) \<noteq> None \<and>
          (\<exists>j\<ge>i + 1. k = suffixedKey base j \<and> (\<forall>j'. i + 1 \<le> j' \<and> j' < j \<longrightarrow> map_of schema (suffixedKey base j') \<noteq> None)))"
      by blast
    have r: "putSchema_loop schema table base key i = schema @ [(k, table)]"
      using False k(2) by (subst putSchema_loop.simps) auto
    from k(3) have "\<exists>j\<ge>i. k = suffixedKey base j \<and> (\<forall>j'. i \<le> j' \<and> j' < j \<longrightarrow> map_of schema (suffixedKey base j') \<noteq> None)"
    proof
      assume "k = suffixedKey base i"
      then show ?thesis by (intro exI [of _ i]) auto
    next
      assume "map_of schema (suffixedKey base i) \<noteq> None \<and>
          (\<exists>j\<ge>i + 1. k = suffixedKey base j \<and> (\<forall>j'. i + 1 \<le> j' \<and> j' < j \<longrightarrow> map_of schema (suffixedKey base j') \<noteq> None))"
      then obtain j where t: "map_of schema (suffixedKey base i) \<noteq> None" and j: "i + 1 \<le> j" "k = suffixedKey base j"
        "\<forall>j'. i + 1 \<le> j' \<and> j' < j \<longrightarrow> map_of schema (suffixedKey base j') \<noteq> None"
        by blast
      have "\<forall>j'. i \<le> j' \<and> j' < j \<longrightarrow> map_of schema (suffixedKey base j') \<noteq> None"
      proof (intro allI impI)
        fix j' assume "i \<le> j' \<and> j' < j"
        then have "j' = i \<or> (i + 1 \<le> j' \<and> j' < j)" by arith
        with t j(3) show "map_of schema (suffixedKey base j') \<noteq> None" by blast
      qed
      with j show ?thesis by (intro exI [of _ j]) simp
    qed
    with k(1) r False show ?thesis by blast
  qed
qed

lemma map_of_snoc_absent:
  "map_of al k = None \<Longrightarrow> map_of (al @ [(k, v)]) = (map_of al)(k \<mapsto> v)"
  by (rule ext) (auto simp: map_add_def split: option.splits)

text \<open>
  C9: \<open>putSchema\<close> neither overwrites nor drops an entry.  The new record is stored
  under a key that was free; every earlier binding is unchanged; the map has exactly one
  more entry; and the key is the raw struct name or, when that is taken, the name with
  the first free numeric suffix \<open>__2\<close>, \<open>__3\<close>, ...
\<close>

theorem putSchema_never_overwrites:
  "\<exists>k. map_of schema k = None \<and>
       putSchema schema table = schema @ [(k, table)] \<and>
       map_of (putSchema schema table) = (map_of schema)(k \<mapsto> table) \<and>
       (\<forall>k' v. map_of schema k' = Some v \<longrightarrow> map_of (putSchema schema table) k' = Some v) \<and>
       card (dom (map_of (putSchema schema table))) = card (dom (map_of schema)) + 1 \<and>
       (k = tm_StructName table \<or>
        (map_of schema (tm_StructName table) \<noteq> None \<and>
         (\<exists>i\<ge>2. k = tm_StructName table @ ''__'' @ itoa i \<and>
            (\<forall>j. 2 \<le> j \<and> j < i \<longrightarrow>
                 map_of schema (tm_StructName table @ ''__'' @ itoa j) \<noteq> None))))"
proof -
  let ?b = "tm_StructName table"
  from putSchema_loop_spec [of schema table ?b ?b 2]
  obtain k where k: "map_of schema k = None"
    and r: "putSchema schema table = schema @ [(k, table)]"
    and w: "k = ?b \<or> (map_of schema ?b \<noteq> None \<and>
          (\<exists>j\<ge>2. k = suffixedKey ?b j \<and> (\<forall>j'. 2 \<le> j' \<and> j' < j \<longrightarrow> map_of schema (suffixedKey ?b j') \<noteq> None)))"
    unfolding putSchema_def by blast
  have m: "map_of (putSchema schema table) = (map_of schema)(k \<mapsto> table)"
    unfolding r using k by (rule map_of_snoc_absent)
  have p: "\<forall>k' v. map_of schema k' = Some v \<longrightarrow> map_of (putSchema schema table) k' = Some v"
    unfolding m using k by auto
  have "k \<notin> dom (map_of schema)"
    using k by (simp add: domIff)
  then have c: "card (dom (map_of (putSchema schema table))) = card (dom (map_of schema)) + 1"
    unfolding m by (simp add: finite_dom_map_of)
  from k r m p c w show ?thesis
    unfolding suffixedKey_def by blast
qed

theorem putSchema_never_overwrites_witness:
  "putSchema [(''User'', exampleTable ''User''), (''User__2'', exampleTable ''User'')] (exampleTable ''User'')
     = [(''User'', exampleTable ''User''), (''User__2'', exampleTable ''User''),
        (''User__3'', exampleTable ''User'')] \<and>
   card (dom (map_of (putSchema [(''User'', exampleTable ''User''), (''User__2'', exampleTable ''User'')]
      (exampleTable ''User'')))) = 3"
proof -
  let ?s = "[(''User'', exampleTable ''User''), (''User__2'', exampleTable ''User'')]"
  have e: "putSchema ?s (exampleTable ''User'') = ?s @ [(''User__3'', exampleTable ''User'')]"
    by code_simp
  have d: "card (dom (map_of ?s)) = 2"
    by simp
  from putSchema_never_overwrites [of ?s "exampleTable ''User''"]
  have "card (dom (map_of (putSchema ?s (exampleTable ''User'')))) = card (dom (map_of ?s)) + 1"
    by blast
  with d e show ?thesis by simp
qed

section \<open>Properties of the relation tag parser\<close>

lemma Split_no_sep: "sep \<notin> set s \<Longrightarrow> Split s sep = [s]"
  by (induction s) auto

lemma Split_append_sep: "sep \<notin> set a \<Longrightarrow> Split (a @ sep # rest) sep = a # Split rest sep"
  by (induction a) auto

lemma Split_Join_comma:
  "segs \<noteq> [] \<Longrightarrow> \<forall>s \<in> set segs. CHR '','' \<notin> set s \<Longrightarrow> Split (Join_comma segs) (CHR '','') = segs"
proof (induction segs rule: Join_comma.induct)
  case 1
  then show ?case by simp
next
  case (2 s)
  then show ?case by (simp add: Split_no_sep)
next
  case (3 s t ss)
  then show ?case by (simp add: Split_append_sep)
qed

lemma findWithPart_skip:
  "\<forall>s \<in> set pre. \<not> HasPrefix (TrimSpace s) ''with:'' \<Longrightarrow>
   findWithPart (pre @ seg # post) = findWithPart (seg # post)"
  by (induction pre) (auto simp: Let_def)

lemma findWithPart_hit:
  "TrimSpace seg = ''with:'' @ v \<Longrightarrow> findWithPart (seg # post) = v"
  by (simp add: Let_def HasPrefix_def TrimPrefix_def)

lemma SplitN2_sep: "sep \<notin> set l \<Longrightarrow> SplitN2 (l @ sep # r) sep = [l, r]"
  by (simp add: SplitN2_def takeWhile_append dropWhile_append)

lemma SplitN2_no_sep: "sep \<notin> set v \<Longrightarrow> SplitN2 v sep = [v]"
  by (simp add: SplitN2_def)

lemma parseWithTag_withPart:
  assumes "findWithPart (Split tag (CHR '','')) = v" and "v \<noteq> []"
  shows "\<exists>rel. parseWithTag tag = Some rel \<and>
           rel_FieldName rel = [] \<and> rel_TargetStruct rel = [] \<and> \<not> rel_IsCollection rel \<and>
           rel_Validation rel = [] \<and> rel_Description rel = [] \<and>
           (\<forall>l r. v = l @ ''='' @ r \<and> CHR ''='' \<notin> set l \<longrightarrow>
                rel_TargetKey rel = TrimSpace l \<and> rel_SourceKey rel = TrimSpace r) \<and>
           (CHR ''='' \<notin> set v \<longrightarrow> rel_TargetKey rel = TrimSpace v \<and> rel_SourceKey rel = ''id'')"
proof (cases "CHR ''='' \<in> set v")
  case False
  with assms show ?thesis
    by (auto simp: parseWithTag_def Let_def SplitN2_no_sep)
next
  case True
  have "\<And>l r. v = l @ ''='' @ r \<Longrightarrow> CHR ''='' \<notin> set l \<Longrightarrow> SplitN2 v (CHR ''='') = [l, r]"
    using SplitN2_sep [of "CHR ''=''"] by simp
  moreover have "length (SplitN2 v (CHR ''='')) = 2"
    using True by (simp add: SplitN2_def)
  ultimately show ?thesis
    using assms True by (auto simp: parseWithTag_def Let_def)
qed

lemma parseWithTag_no_value:
  "findWithPart (Split tag (CHR '','')) = [] \<Longrightarrow> parseWithTag tag = None"
  by (simp add: parseWithTag_def Let_def)

text \<open>
  C6 (amended): for every orm tag whose first \<open>with:\<close> segment has a non-empty value,
  \<open>parseWithTag\<close> returns a relation whose keys come from splitting that value at its
  first \<open>=\<close>, with surrounding white space trimmed: the left side is the target key, the
  right side the source key, and the source key is \<open>id\<close> when the value has no
  \<open>=\<close>; when the value is empty it returns \<open>nil\<close>.  The tag is given by its
  comma-separated segments: \<open>pre\<close> holds the segments
  before the first \<open>with:\<close> segment \<open>seg\<close>, whose trimmed text is \<open>with:\<close> followed by
  the value \<open>v\<close>.
\<close>

theorem parseWithTag_splits_value:
  assumes "tag = Join_comma (pre @ [seg] @ post)"
    and "\<forall>s \<in> set (pre @ [seg] @ post). CHR '','' \<notin> set s"
    and "\<forall>s \<in> set pre. \<not> HasPrefix (TrimSpace s) ''with:''"
    and "TrimSpace seg = ''with:'' @ v"
  shows "if v = [] then parseWithTag tag = None
         else (\<exists>rel. parseWithTag tag = Some rel \<and>
           rel_FieldName rel = [] \<and> rel_TargetStruct rel = [] \<and> \<not> rel_IsCollection rel \<and>
           rel_Validation rel = [] \<and> rel_Description rel = [] \<and>
           (\<forall>l r. v = l @ ''='' @ r \<and> CHR ''='' \<notin> set l \<longrightarrow>
                rel_TargetKey rel = TrimSpace l \<and> rel_SourceKey rel = TrimSpace r) \<and>
           (CHR ''='' \<notin> set v \<longrightarrow> rel_TargetKey rel = TrimSpace v \<and> rel_SourceKey rel = ''id''))"
proof -
  have "Split tag (CHR '','') = pre @ seg # post"
    using assms(1,2) Split_Join_comma [of "pre @ [seg] @ post"] by simp
  then have f: "findWithPart (Split tag (CHR '','')) = v"
    using assms(3) findWithPart_hit [OF assms(4)] by (simp only: findWithPart_skip)
  show ?thesis
  proof (cases "v = []")
    case True
    with f show ?thesis by (simp add: parseWithTag_no_value)
  next
    case False
    with parseWithTag_withPart [OF f False] show ?thesis by simp
  qed
qed

text \<open>
  C6 (as stated) speaks of every tag with a \<open>with:\<close> sub-tag.  For the tag \<open>with:\<close>,
  whose sub-tag has an empty value, \<open>parseWithTag\<close> returns \<open>nil\<close>: no relation and no
  keys at all.
\<close>

theorem parseWithTag_empty_value: "parseWithTag ''with:'' = None"
  by code_simp

text \<open>
  The forms \<open>uid=id\<close> and \<open>uid = id\<close> (here among other segments) give the same keys,
  and a value without \<open>=\<close> gets the source key \<open>id\<close>.
\<close>

theorem parseWithTag_splits_value_witness:
  "parseWithTag ''with:uid=id'' =
     Some \<lparr>rel_FieldName = [], rel_TargetStruct = [], rel_IsCollection = False,
           rel_TargetKey = ''uid'', rel_SourceKey = ''id'', rel_Validation = [],
           rel_Description = []\<rparr> \<and>
   parseWithTag ''table:user, with: uid = id ,where:x'' =
     Some \<lparr>rel_FieldName = [], rel_TargetStruct = [], rel_IsCollection = False,
           rel_TargetKey = ''uid'', rel_SourceKey = ''id'', rel_Validation = [],
           rel_Description = []\<rparr> \<and>
   parseWithTag ''with:uid'' =
     Some \<lparr>rel_FieldName = [], rel_TargetStruct = [], rel_IsCollection = False,
           rel_TargetKey = ''uid'', rel_SourceKey = ''id'', rel_Validation = [],
           rel_Description = []\<rparr>"
proof -
  have t1: "TrimSpace ''uid'' = ''uid''" by code_simp
  have t2: "TrimSpace '' uid '' = ''uid''" by code_simp
  have t3: "TrimSpace ''id'' = ''id''" by code_simp
  have t4: "TrimSpace '' id'' = ''id''" by code_simp
  have s1: "TrimSpace ''with:uid=id'' = ''with:uid=id''" by code_simp
  have s2: "TrimSpace ''table:user'' = ''table:user''" by code_simp
  have s3: "TrimSpace '' with: uid = id '' = ''with: uid = id''" by code_simp
  have s4: "TrimSpace ''with:uid'' = ''with:uid''" by code_simp
  note t = t1 t2 t3 t4
  have "if ''uid=id'' = [] then parseWithTag ''with:uid=id'' = None
      else (\<exists>rel. parseWithTag ''with:uid=id'' = Some rel \<and>
           rel_FieldName rel = [] \<and> rel_TargetStruct rel = [] \<and> \<not> rel_IsCollection rel \<and>
           rel_Validation rel = [] \<and> rel_Description rel = [] \<and>
           (\<forall>l r. ''uid=id'' = l @ ''='' @ r \<and> CHR ''='' \<notin> set l \<longrightarrow>
                rel_TargetKey rel = TrimSpace l \<and> rel_SourceKey rel = TrimSpace r) \<and>
           (CHR ''='' \<notin> set ''uid=id'' \<longrightarrow>
                rel_TargetKey rel = TrimSpace ''uid=id'' \<and> rel_SourceKey rel = ''id''))"
    by (rule parseWithTag_splits_value [of _ "[]" "''with:uid=id''" "[]"])
       (simp_all add: s1)
  then have "\<exists>rel. parseWithTag ''with:uid=id'' = Some rel \<and>
           rel_FieldName rel = [] \<and> rel_TargetStruct rel = [] \<and> \<not> rel_IsCollection rel \<and>
           rel_Validation rel = [] \<and> rel_Description rel = [] \<and>
           (\<forall>l r. ''uid=id'' = l @ ''='' @ r \<and> CHR ''='' \<notin> set l \<longrightarrow>
                rel_TargetKey rel = TrimSpace l \<and> rel_SourceKey rel = TrimSpace r) \<and>
           (CHR ''='' \<notin> set ''uid=id'' \<longrightarrow>
                rel_TargetKey rel = TrimSpace ''uid=id'' \<and> rel_SourceKey rel = ''id'')"
    by (simp only: list.distinct if_False)
  then obtain r1 where r1: "parseWithTag ''with:uid=id'' = Some r1"
    "rel_FieldName r1 = []" "rel_TargetStruct r1 = []" "\<not> rel_IsCollection r1"
    "rel_Validation r1 = []" "rel_Description r1 = []"
    "\<forall>l r. ''uid=id'' = l @ ''='' @ r \<and> CHR ''='' \<notin> set l \<longrightarrow>
                rel_TargetKey r1 = TrimSpace l \<and> rel_SourceKey r1 = TrimSpace r"
    by blast
  from r1(7) [rule_format, of "''uid''" "''id''"]
  have "rel_TargetKey r1 = ''uid''" "rel_SourceKey r1 = ''id''"
    by (simp_all add: t)
  with r1 have a: "parseWithTag ''with:uid=id'' =
     Some \<lparr>rel_FieldName = [], rel_TargetStruct = [], rel_IsCollection = False,
           rel_TargetKey = ''uid'', rel_SourceKey = ''id'', rel_Validation = [],
           rel_Description = []\<rparr>"
    by (cases r1) simp
  have "if '' uid = id'' = [] then parseWithTag ''table:user, with: uid = id ,where:x'' = None
      else (\<exists>rel. parseWithTag ''table:user, with: uid = id ,where:x'' = Some rel \<and>
           rel_FieldName rel = [] \<and> rel_TargetStruct rel = [] \<and> \<not> rel_IsCollection rel \<and>
           rel_Validation rel = [] \<and> rel_Description rel = [] \<and>
           (\<forall>l r. '' uid = id'' = l @ ''='' @ r \<and> CHR ''='' \<notin> set l \<longrightarrow>
                rel_TargetKey rel = TrimSpace l \<and> rel_SourceKey rel = TrimSpace r) \<and>
           (CHR ''='' \<notin> set '' uid = id'' \<longrightarrow>
                rel_TargetKey rel = TrimSpace '' uid = id'' \<and> rel_SourceKey rel = ''id''))"
    by (rule parseWithTag_splits_value
          [of _ "[''table:user'']" "'' with: uid = id ''" "[''where:x'']"])
       (simp_all add: s2 s3 HasPrefix_def)
  then have "\<exists>rel. parseWithTag ''table:user, with: uid = id ,where:x'' = Some rel \<and>
           rel_FieldName rel = [] \<and> rel_TargetStruct rel = [] \<and> \<not> rel_IsCollection rel \<and>
           rel_Validation rel = [] \<and> rel_Description rel = [] \<and>
           (\<forall>l r. '' uid = id'' = l @ ''='' @ r \<and> CHR ''='' \<notin> set l \<longrightarrow>
                rel_TargetKey rel = TrimSpace l \<and> rel_SourceKey rel = TrimSpace r) \<and>
           (CHR ''='' \<notin> set '' uid = id'' \<longrightarrow>
                rel_TargetKey rel = TrimSpace '' uid = id'' \<and> rel_SourceKey rel = ''id'')"
    by (simp only: list.distinct if_False)
  then obtain r2 where r2: "parseWithTag ''table:user, with: uid = id ,where:x'' = Some r2"
    "rel_FieldName r2 = []" "rel_TargetStruct r2 = []" "\<not> rel_IsCollection r2"
    "rel_Validation r2 = []" "rel_Description r2 = []"
    "\<forall>l r. '' uid = id'' = l @ ''='' @ r \<and> CHR ''='' \<notin> set l \<longrightarrow>
                rel_TargetKey r2 = TrimSpace l \<and> rel_SourceKey r2 = TrimSpace r"
    by blast
  from r2(7) [rule_format, of "'' uid ''" "'' id''"]
  have "rel_TargetKey r2 = ''uid''" "rel_SourceKey r2 = ''id''"
    by (simp_all add: t)
  with r2 have b: "parseWithTag ''table:user, with: uid = id ,where:x'' =
     Some \<lparr>rel_FieldName = [], rel_TargetStruct = [], rel_IsCollection = False,
           rel_TargetKey = ''uid'', rel_SourceKey = ''id'', rel_Validation = [],
           rel_Description = []\<rparr>"
    by (cases r2) simp
  have "if ''uid'' = [] then parseWithTag ''with:uid'' = None
      else (\<exists>rel. parseWithTag ''with:uid'' = Some rel \<and>
           rel_FieldName rel = [] \<and> rel_TargetStruct rel = [] \<and> \<not> rel_IsCollection rel \<and>
           rel_Validation rel = [] \<and> rel_Description rel = [] \<and>
           (\<forall>l r. ''uid'' = l @ ''='' @ r \<and> CHR ''='' \<notin> set l \<longrightarrow>
                rel_TargetKey rel = TrimSpace l \<and> rel_SourceKey rel = TrimSpace r) \<and>
           (CHR ''='' \<notin> set ''uid'' \<longrightarrow>
                rel_TargetKey rel = TrimSpace ''uid'' \<and> rel_SourceKey rel = ''id''))"
    by (rule parseWithTag_splits_value [of _ "[]" "''with:uid''" "[]"])
       (simp_all add: s4)
  then have "\<exists>rel. parseWithTag ''with:uid'' = Some rel \<and>
           rel_FieldName rel = [] \<and> rel_TargetStruct rel = [] \<and> \<not> rel_IsCollection rel \<and>
           rel_Validation rel = [] \<and> rel_Description rel = [] \<and>
           (\<forall>l r. ''uid'' = l @ ''='' @ r \<and> CHR ''='' \<notin> set l \<longrightarrow>
                rel_TargetKey rel = TrimSpace l \<and> rel_SourceKey rel = TrimSpace r) \<and>
           (CHR ''='' \<notin> set ''uid'' \<longrightarrow>
                rel_TargetKey rel = TrimSpace ''uid'' \<and> rel_SourceKey rel = ''id'')"
    by (simp only: list.distinct if_False)
  then obtain r3 where r3: "parseWithTag ''with:uid'' = Some r3"
    "rel_FieldName r3 = []" "rel_TargetStruct r3 = []" "\<not> rel_IsCollection r3"
    "rel_Validation r3 = []" "rel_Description r3 = []"
    "CHR ''='' \<notin> set ''uid'' \<longrightarrow>
                rel_TargetKey r3 = TrimSpace ''uid'' \<and> rel_SourceKey r3 = ''id''"
    by blast
  from r3(7) have "rel_TargetKey r3 = ''uid''" "rel_SourceKey r3 = ''id''"
    by (simp_all add: t)
  with r3 have c: "parseWithTag ''with:uid'' =
     Some \<lparr>rel_FieldName = [], rel_TargetStruct = [], rel_IsCollection = False,
           rel_TargetKey = ''uid'', rel_SourceKey = ''id'', rel_Validation = [],
           rel_Description = []\<rparr>"
    by (cases r3) simp
  from a b c show ?thesis by simp
qed

text \<open>
  White space outside ASCII is trimmed as well: a no-break space (U+00A0, the bytes
  \<open>C2 A0\<close>) after the value, after an empty value, and before the sub-tag.
\<close>

lemma parseWithTag_no_break_space:
  "parseWithTag (''with:uid'' @ [CHR 0xC2, CHR 0xA0]) =
     Some \<lparr>rel_FieldName = [], rel_TargetStruct = [], rel_IsCollection = False,
           rel_TargetKey = ''uid'', rel_SourceKey = ''id'', rel_Validation = [],
           rel_Description = []\<rparr> \<and>
   parseWithTag (''with:'' @ [CHR 0xC2, CHR 0xA0]) = None \<and>
   parseWithTag ([CHR 0xC2, CHR 0xA0] @ ''with:uid=id,with:x=y'') =
     Some \<lparr>rel_FieldName = [], rel_TargetStruct = [], rel_IsCollection = False,
           rel_TargetKey = ''uid'', rel_SourceKey = ''id'', rel_Validation = [],
           rel_Description = []\<rparr>"
  by code_simp

section \<open>Properties of the operation schema choice\<close>

lemma sort_nth0_Min: "ks \<noteq> [] \<Longrightarrow> sort ks ! 0 = Min (set ks)"
proof -
  assume ne: "ks \<noteq> []"
  then have "sort ks \<noteq> []"
    by (metis set_empty set_sort)
  then obtain x xs where xs: "sort ks = x # xs"
    by (cases "sort ks") auto
  have "sorted (x # xs)"
    using xs by (metis sorted_sort)
  then have le: "\<forall>y \<in> set (x # xs). x \<le> y"
    by auto
  have st: "set (x # xs) = set ks"
    using xs by (metis set_sort)
  have "Min (set ks) = x"
    by (rule Min_eqI) (use le st in auto)
  with xs show ?thesis by simp
qed

lemma firstResponse_Some:
  "firstResponse codes resps = Some r \<longleftrightarrow>
     (\<exists>i<length codes. lookupPtr resps (codes ! i) = Some r \<and>
        (\<forall>j<i. lookupPtr resps (codes ! j) = None))"
proof (induction codes)
  case Nil
  then show ?case by simp
next
  case (Cons c cs)
  show ?case
  proof (cases "lookupPtr resps c")
    case None
    have "(\<exists>i<length (c # cs). lookupPtr resps ((c # cs) ! i) = Some r \<and>
        (\<forall>j<i. lookupPtr resps ((c # cs) ! j) = None)) \<longleftrightarrow>
        (\<exists>i<length cs. lookupPtr resps (cs ! i) = Some r \<and>
        (\<forall>j<i. lookupPtr resps (cs ! j) = None))" (is "?L \<longleftrightarrow> ?R")
    proof
      assume ?L
      then obtain i where i: "i < length (c # cs)" "lookupPtr resps ((c # cs) ! i) = Some r"
        "\<forall>j<i. lookupPtr resps ((c # cs) ! j) = None" by blast
      with None obtain i' where i': "i = Suc i'" by (cases i) auto
      have "\<forall>j<i'. lookupPtr resps (cs ! j) = None"
      proof (intro allI impI)
        fix j assume "j < i'"
        then have "Suc j < i" using i' by simp
        with i(3) show "lookupPtr resps (cs ! j) = None" by fastforce
      qed
      with i i' show ?R by auto
    next
      assume ?R
      then obtain i where i: "i < length cs" "lookupPtr resps (cs ! i) = Some r"
        "\<forall>j<i. lookupPtr resps (cs ! j) = None" by blast
      have "\<forall>j<Suc i. lookupPtr resps ((c # cs) ! j) = None"
      proof (intro allI impI)
        fix j assume "j < Suc i"
        then show "lookupPtr resps ((c # cs) ! j) = None"
          using None i(3) by (cases j) auto
      qed
      with i show ?L by (intro exI [of _ "Suc i"]) simp
    qed
    with None Cons show ?thesis by simp
  next
    case (Some a)
    have "(\<exists>i<length (c # cs). lookupPtr resps ((c # cs) ! i) = Some r \<and>
        (\<forall>j<i. lookupPtr resps ((c # cs) ! j) = None)) \<longleftrightarrow> a = r" (is "?L \<longleftrightarrow> _")
    proof
      assume ?L
      then obtain i where i: "i < length (c # cs)" "lookupPtr resps ((c # cs) ! i) = Some r"
        "\<forall>j<i. lookupPtr resps ((c # cs) ! j) = None" by blast
      have "i = 0"
      proof (rule ccontr)
        assume "i \<noteq> 0"
        then have "0 < i" by simp
        with i(3) have "lookupPtr resps ((c # cs) ! 0) = None" by blast
        with Some show False by simp
      qed
      with i Some show "a = r" by simp
    next
      assume "a = r"
      with Some show ?L by (intro exI [of _ 0]) simp
    qed
    with Some show ?thesis by simp
  qed
qed

lemma firstResponse_None:
  "firstResponse codes resps = None \<longleftrightarrow> (\<forall>c \<in> set codes. lookupPtr resps c = None)"
  by (induction codes) (auto split: option.splits)

lemma pickResponse_alt:
  "pickOpenAPIResponseSchemaRefName resps =
     (if resps = [] then Inr []
      else (case firstResponse responsePreference resps of
              Some r \<Rightarrow> schemaRefOfContent (resp_Content r)
            | None \<Rightarrow>
                (case lookupPtr resps (sort (map fst resps) ! 0) of
                   None \<Rightarrow> Inr []
                 | Some r \<Rightarrow> schemaRefOfContent (resp_Content r))))"
  by (simp add: pickOpenAPIResponseSchemaRefName_def responsePreference_def Let_def
      split: option.splits)

lemma Min_keys: "m \<noteq> [] \<Longrightarrow> sort (map fst m) ! 0 = Min (fst ` set m)"
  using sort_nth0_Min [of "map fst m"] by simp

text \<open>
  C7 (amended): the response schema is taken from the first of the codes 200, 201, 202,
  204 and then \<open>default\<close> whose response is present and not null, and otherwise from the
  lexicographically first of all codes of the map (no schema when that response is
  null); within a request body or response, \<open>application/json\<close> is preferred, then
  \<open>application/ld+json\<close> (each when present and not null), then the lexicographically
  first media type of the map when that media type is not null.
\<close>

theorem response_and_media_preference:
  "(resps = [] \<longrightarrow> pickOpenAPIResponseSchemaRefName resps = Inr []) \<and>
   (\<forall>i r. i < length responsePreference \<and>
          lookupPtr resps (responsePreference ! i) = Some r \<and>
          (\<forall>j<i. lookupPtr resps (responsePreference ! j) = None) \<longrightarrow>
          pickOpenAPIResponseSchemaRefName resps = schemaRefOfContent (resp_Content r)) \<and>
   (resps \<noteq> [] \<and> (\<forall>c \<in> set responsePreference. lookupPtr resps c = None) \<longrightarrow>
      pickOpenAPIResponseSchemaRefName resps =
        (case lookupPtr resps (Min (fst ` set resps)) of
           None \<Rightarrow> Inr []
         | Some r \<Rightarrow> schemaRefOfContent (resp_Content r))) \<and>
   (content = [] \<longrightarrow> pickJSONMediaSchema content = Inr None) \<and>
   (\<forall>mt. lookupPtr content ''application/json'' = Some mt \<longrightarrow>
         pickJSONMediaSchema content = Inr (mt_Schema mt)) \<and>
   (\<forall>mt. lookupPtr content ''application/json'' = None \<and>
         lookupPtr content ''application/ld+json'' = Some mt \<longrightarrow>
         pickJSONMediaSchema content = Inr (mt_Schema mt)) \<and>
   (\<forall>mt. lookupPtr content ''application/json'' = None \<and>
         lookupPtr content ''application/ld+json'' = None \<and>
         lookupPtr content (Min (fst ` set content)) = Some mt \<longrightarrow>
         pickJSONMediaSchema content = Inr (mt_Schema mt))"
proof -
  have a: "resps = [] \<longrightarrow> pickOpenAPIResponseSchemaRefName resps = Inr []"
    by (simp add: pickOpenAPIResponseSchemaRefName_def)
  have b: "\<forall>i r. i < length responsePreference \<and>
          lookupPtr resps (responsePreference ! i) = Some r \<and>
          (\<forall>j<i. lookupPtr resps (responsePreference ! j) = None) \<longrightarrow>
          pickOpenAPIResponseSchemaRefName resps = schemaRefOfContent (resp_Content r)"
  proof (intro allI impI)
    fix i r
    assume h: "i < length responsePreference \<and>
          lookupPtr resps (responsePreference ! i) = Some r \<and>
          (\<forall>j<i. lookupPtr resps (responsePreference ! j) = None)"
    then have f: "firstResponse responsePreference resps = Some r"
      unfolding firstResponse_Some by blast
    from h have "resps \<noteq> []"
      by (auto simp: lookupPtr_def)
    with f show "pickOpenAPIResponseSchemaRefName resps = schemaRefOfContent (resp_Content r)"
      by (simp add: pickResponse_alt)
  qed
  have c: "resps \<noteq> [] \<and> (\<forall>c \<in> set responsePreference. lookupPtr resps c = None) \<longrightarrow>
      pickOpenAPIResponseSchemaRefName resps =
        (case lookupPtr resps (Min (fst ` set resps)) of
           None \<Rightarrow> Inr []
         | Some r \<Rightarrow> schemaRefOfContent (resp_Content r))"
  proof
    assume h: "resps \<noteq> [] \<and> (\<forall>c \<in> set responsePreference. lookupPtr resps c = None)"
    then have "firstResponse responsePreference resps = None"
      unfolding firstResponse_None by blast
    with h show "pickOpenAPIResponseSchemaRefName resps =
        (case lookupPtr resps (Min (fst ` set resps)) of
           None \<Rightarrow> Inr []
         | Some r \<Rightarrow> schemaRefOfContent (resp_Content r))"
      by (simp add: pickResponse_alt Min_keys)
  qed
  have d: "content = [] \<longrightarrow> pickJSONMediaSchema content = Inr None"
    by (simp add: pickJSONMediaSchema_def)
  have e: "\<forall>mt. lookupPtr content ''application/json'' = Some mt \<longrightarrow>
         pickJSONMediaSchema content = Inr (mt_Schema mt)"
    by (auto simp: pickJSONMediaSchema_def lookupPtr_def)
  have f: "\<forall>mt. lookupPtr content ''application/json'' = None \<and>
         lookupPtr content ''application/ld+json'' = Some mt \<longrightarrow>
         pickJSONMediaSchema content = Inr (mt_Schema mt)"
    by (auto simp: pickJSONMediaSchema_def lookupPtr_def)
  have g: "\<forall>mt. lookupPtr content ''application/json'' = None \<and>
         lookupPtr content ''application/ld+json'' = None \<and>
         lookupPtr content (Min (fst ` set content)) = Some mt \<longrightarrow>
         pickJSONMediaSchema content = Inr (mt_Schema mt)"
  proof (intro allI impI)
    fix mt
    assume h: "lookupPtr content ''application/json'' = None \<and>
         lookupPtr content ''application/ld+json'' = None \<and>
         lookupPtr content (Min (fst ` set content)) = Some mt"
    then have "content \<noteq> []"
      by (auto simp: lookupPtr_def)
    with h show "pickJSONMediaSchema content = Inr (mt_Schema mt)"
      by (simp add: pickJSONMediaSchema_def Min_keys)
  qed
  from a b c d e f g show ?thesis by blast
qed

text \<open>
  C7 (as stated) falls back from the JSON media type straight to the lexicographically
  first media type, and goes through the response codes 200, 201, 202, 204,
  \<open>default\<close> and then the first remaining code.

  Media types: for a content map with \<open>application/hal+json\<close> and
  \<open>application/ld+json\<close> and no \<open>application/json\<close>, the lexicographically first
  type is \<open>application/hal+json\<close>, but the schema of \<open>application/ld+json\<close> is
  chosen.

  Response codes: for the responses \<open>200\<close> (null) and \<open>404\<close> (schema \<open>NotFound\<close>),
  the only remaining code is \<open>404\<close>, but no schema is chosen: the null response under
  \<open>200\<close> is passed over by the loop over the preferred codes and then met again as the
  lexicographically first of all codes.  For the responses \<open>default\<close> (null) and
  \<open>404\<close> (schema \<open>NotFound\<close>), the code \<open>default\<close> is in the map, but the schema of
  \<open>404\<close> is chosen.
\<close>

theorem schema_choice_differs_from_stated_order:
  "pickJSONMediaSchema exampleHalLdContent = Inr (Some (refSchema ''#/components/schemas/Ld'')) \<and>
   map_of exampleHalLdContent ''application/json'' = None \<and>
   Min (fst ` set exampleHalLdContent) = ''application/hal+json'' \<and>
   map_of exampleHalLdContent ''application/hal+json''
     = Some (Some \<lparr>mt_Schema = Some (refSchema ''#/components/schemas/Hal'')\<rparr>) \<and>
   pickOpenAPIResponseSchemaRefName exampleNullOkResponses = Inr [] \<and>
   filter (\<lambda>c. c \<notin> set responsePreference) (sort (map fst exampleNullOkResponses)) = [''404''] \<and>
   map_of exampleNullOkResponses ''404''
     = Some (Some \<lparr>resp_Description = ''missing'', resp_Content = exampleNotFoundContent\<rparr>) \<and>
   schemaRefOfContent exampleNotFoundContent = Inr ''NotFound'' \<and>
   pickOpenAPIResponseSchemaRefName exampleNullDefaultResponses = Inr ''NotFound'' \<and>
   map_of exampleNullDefaultResponses ''default'' = Some None"
  by code_simp

text \<open>
  Responses 404, 201 and a null 200: the code 201 is chosen, and in its content the
  \<open>application/ld+json\<close> schema.  In a content map with \<open>text/plain\<close> and
  \<open>application/xml\<close> the lexicographically first type, \<open>application/xml\<close>, is chosen.
\<close>

theorem response_and_media_preference_witness:
  "pickOpenAPIResponseSchemaRefName exampleResponses = Inr ''Ld'' \<and>
   pickJSONMediaSchema exampleXmlContent = Inr (Some (refSchema ''#/components/schemas/Xml''))"
proof -
  have l: "lookupPtr exampleResponses ''200'' = None"
    "lookupPtr exampleResponses ''201'' =
       Some \<lparr>resp_Description = ''created'', resp_Content = exampleHalLdContent\<rparr>"
    by (simp_all add: lookupPtr_def exampleResponses_def)
  have m: "lookupPtr exampleHalLdContent ''application/json'' = None"
    "lookupPtr exampleHalLdContent ''application/ld+json'' =
       Some \<lparr>mt_Schema = Some (refSchema ''#/components/schemas/Ld'')\<rparr>"
    by (simp_all add: lookupPtr_def exampleHalLdContent_def)
  note t = response_and_media_preference [of exampleResponses exampleHalLdContent]
  from t have "\<forall>i r. i < length responsePreference \<and>
          lookupPtr exampleResponses (responsePreference ! i) = Some r \<and>
          (\<forall>j<i. lookupPtr exampleResponses (responsePreference ! j) = None) \<longrightarrow>
          pickOpenAPIResponseSchemaRefName exampleResponses = schemaRefOfContent (resp_Content r)"
    by blast
  from this [rule_format, of 1 "\<lparr>resp_Description = ''created'', resp_Content = exampleHalLdContent\<rparr>"]
  have p: "pickOpenAPIResponseSchemaRefName exampleResponses = schemaRefOfContent exampleHalLdContent"
    using l by (simp add: responsePreference_def)
  from t have "\<forall>mt. lookupPtr exampleHalLdContent ''application/json'' = None \<and>
         lookupPtr exampleHalLdContent ''application/ld+json'' = Some mt \<longrightarrow>
         pickJSONMediaSchema exampleHalLdContent = Inr (mt_Schema mt)"
    by blast
  with m have "pickJSONMediaSchema exampleHalLdContent =
      Inr (Some (refSchema ''#/components/schemas/Ld''))"
    by simp
  then have "schemaRefOfContent exampleHalLdContent = Inr ''Ld''"
    by (simp add: schemaRefOfContent_def openAPISchemaRefOrItemRef_def refSchema_def
        openAPIRefName_def HasPrefix_def TrimPrefix_def)
  with p have first: "pickOpenAPIResponseSchemaRefName exampleResponses = Inr ''Ld''"
    by simp
  have x: "lookupPtr exampleXmlContent ''application/json'' = None"
    "lookupPtr exampleXmlContent ''application/ld+json'' = None"
    by (simp_all add: lookupPtr_def exampleXmlContent_def)
  have mn: "Min (fst ` set exampleXmlContent) = ''application/xml''"
    by code_simp
  have y: "lookupPtr exampleXmlContent (Min (fst ` set exampleXmlContent)) =
      Some \<lparr>mt_Schema = Some (refSchema ''#/components/schemas/Xml'')\<rparr>"
    unfolding mn by (simp add: lookupPtr_def exampleXmlContent_def)
  from response_and_media_preference [of "[]" exampleXmlContent]
  have "\<forall>mt. lookupPtr exampleXmlContent ''application/json'' = None \<and>
         lookupPtr exampleXmlContent ''application/ld+json'' = None \<and>
         lookupPtr exampleXmlContent (Min (fst ` set exampleXmlContent)) = Some mt \<longrightarrow>
         pickJSONMediaSchema exampleXmlContent = Inr (mt_Schema mt)"
    by blast
  with x y have second: "pickJSONMediaSchema exampleXmlContent =
      Inr (Some (refSchema ''#/components/schemas/Xml''))"
    by simp
  from first second show ?thesis by simp
qed

section \<open>Properties of the schema resolution\<close>

lemma collect_visited_grows:
  "co_visited st \<subseteq> co_visited (collectOpenAPIObject spec so st)"
  using collect_visited_mono(1) collect_dom_total by blast

text \<open>
  C8: \<open>collectOpenAPIObject\<close> terminates on every document, cyclic reference graphs
  included: every input of the function and of its loop over \<open>allOf\<close> lies in the
  domain of the recursion (the well-founded part of its call relation), the visited set
  only grows, a reference that was visited is skipped,
  and a reference that was not is recorded as visited before the recursion into its
  target.
\<close>

theorem collectOpenAPIObject_total:
  "collectOpenAPIObject_collectAllOf_dom (Inl (spec, so, st)) \<and>
   collectOpenAPIObject_collectAllOf_dom (Inr (spec, subs, st)) \<and>
   co_visited st \<subseteq> co_visited (collectOpenAPIObject spec so st) \<and>
   (\<forall>s. so = Some s \<and> s_Ref s \<noteq> [] \<and> openAPIRefName (s_Ref s) \<in> co_visited st \<longrightarrow>
        collectOpenAPIObject spec so st = st) \<and>
   (\<forall>s. so = Some s \<and> s_Ref s \<noteq> [] \<and> openAPIRefName (s_Ref s) \<noteq> [] \<and>
        openAPIRefName (s_Ref s) \<notin> co_visited st \<longrightarrow>
        collectOpenAPIObject spec so st =
          collectOpenAPIObject spec (lookupPtr (spec_Schemas spec) (openAPIRefName (s_Ref s)))
            (st\<lparr>co_visited := insert (openAPIRefName (s_Ref s)) (co_visited st)\<rparr>) \<and>
        openAPIRefName (s_Ref s) \<in> co_visited (collectOpenAPIObject spec so st))"
proof -
  have d: "collectOpenAPIObject_collectAllOf_dom (Inl (spec, so, st))"
    "collectOpenAPIObject_collectAllOf_dom (Inr (spec, subs, st))"
    using collect_dom_total by blast+
  have g: "co_visited st \<subseteq> co_visited (collectOpenAPIObject spec so st)"
    by (rule collect_visited_grows)
  have k: "\<forall>s. so = Some s \<and> s_Ref s \<noteq> [] \<and> openAPIRefName (s_Ref s) \<in> co_visited st \<longrightarrow>
        collectOpenAPIObject spec so st = st"
    by (auto simp: Let_def)
  have f: "\<forall>s. so = Some s \<and> s_Ref s \<noteq> [] \<and> openAPIRefName (s_Ref s) \<noteq> [] \<and>
        openAPIRefName (s_Ref s) \<notin> co_visited st \<longrightarrow>
        collectOpenAPIObject spec so st =
          collectOpenAPIObject spec (lookupPtr (spec_Schemas spec) (openAPIRefName (s_Ref s)))
            (st\<lparr>co_visited := insert (openAPIRefName (s_Ref s)) (co_visited st)\<rparr>) \<and>
        openAPIRefName (s_Ref s) \<in> co_visited (collectOpenAPIObject spec so st)"
  proof (intro allI impI)
    fix s
    assume h: "so = Some s \<and> s_Ref s \<noteq> [] \<and> openAPIRefName (s_Ref s) \<noteq> [] \<and>
        openAPIRefName (s_Ref s) \<notin> co_visited st"
    let ?n = "openAPIRefName (s_Ref s)"
    let ?st = "st\<lparr>co_visited := insert ?n (co_visited st)\<rparr>"
    have e: "collectOpenAPIObject spec so st =
        collectOpenAPIObject spec (lookupPtr (spec_Schemas spec) ?n) ?st"
      using h by (simp add: Let_def)
    have "co_visited ?st \<subseteq> co_visited (collectOpenAPIObject spec (lookupPtr (spec_Schemas spec) ?n) ?st)"
      by (rule collect_visited_grows)
    then have "?n \<in> co_visited (collectOpenAPIObject spec (lookupPtr (spec_Schemas spec) ?n) ?st)"
      by auto
    with e show "collectOpenAPIObject spec so st =
          collectOpenAPIObject spec (lookupPtr (spec_Schemas spec) ?n) ?st \<and>
        ?n \<in> co_visited (collectOpenAPIObject spec so st)"
      by simp
  qed
  from d g k f show ?thesis by blast
qed

text \<open>
  A document whose schemas \<open>Node\<close> and \<open>Tree\<close> include each other through \<open>allOf\<close>:
  the resolution of \<open>Node\<close> visits both once and collects the properties of both.
\<close>

lemma collect_cyclic_example: "collectOpenAPIObject cyclicSpec (lookupPtr (spec_Schemas cyclicSpec) ''Node'')
     (emptyCollectState\<lparr>co_visited := insert ''Node'' (co_visited emptyCollectState)\<rparr>) =
   \<lparr>co_visited = {''Tree'', ''Node''},
    co_props = [(''children'', stringProperty), (''id'', stringProperty)],
    co_required = {''id''}\<rparr>"
  by code_simp

theorem collectOpenAPIObject_total_witness:
  "collectOpenAPIObject cyclicSpec (Some (refSchema ''#/components/schemas/Node'')) emptyCollectState =
     \<lparr>co_visited = {''Tree'', ''Node''},
      co_props = [(''children'', stringProperty), (''id'', stringProperty)],
      co_required = {''id''}\<rparr>"
proof -
  let ?s = "refSchema ''#/components/schemas/Node''"
  have n: "s_Ref ?s \<noteq> []" "openAPIRefName (s_Ref ?s) = ''Node''"
    by (simp_all add: refSchema_def openAPIRefName_def HasPrefix_def TrimPrefix_def)
  from collectOpenAPIObject_total [of cyclicSpec "Some ?s" emptyCollectState "[]"]
  have "\<forall>s. Some ?s = Some s \<and> s_Ref s \<noteq> [] \<and> openAPIRefName (s_Ref s) \<noteq> [] \<and>
        openAPIRefName (s_Ref s) \<notin> co_visited emptyCollectState \<longrightarrow>
        collectOpenAPIObject cyclicSpec (Some ?s) emptyCollectState =
          collectOpenAPIObject cyclicSpec
            (lookupPtr (spec_Schemas cyclicSpec) (openAPIRefName (s_Ref s)))
            (emptyCollectState\<lparr>co_visited :=
                insert (openAPIRefName (s_Ref s)) (co_visited emptyCollectState)\<rparr>) \<and>
        openAPIRefName (s_Ref s) \<in> co_visited (collectOpenAPIObject cyclicSpec (Some ?s) emptyCollectState)"
    by blast
  from this [rule_format, of ?s] n
  have "collectOpenAPIObject cyclicSpec (Some ?s) emptyCollectState =
      collectOpenAPIObject cyclicSpec (lookupPtr (spec_Schemas cyclicSpec) ''Node'')
        (emptyCollectState\<lparr>co_visited := insert ''Node'' (co_visited emptyCollectState)\<rparr>)"
    by (simp add: emptyCollectState_def)
  with collect_cyclic_example show ?thesis by simp
qed

section \<open>Properties of the operation attachment\<close>

lemma opsOf_addOperation:
  "opsOf (addOperation rt m oi) n =
     (if normOf rt oi \<noteq> [] \<and> n = normOf rt oi then opsOf m n @ [oi] else opsOf m n)"
  by (simp add: addOperation_def opsOf_def normOf_def Let_def)

lemma opsNormOK_empty: "opsNormOK rt Map.empty"
  by (simp add: opsNormOK_def opsOf_def)

lemma opsNormOK_add: "opsNormOK rt m \<Longrightarrow> opsNormOK rt (addOperation rt m oi)"
  by (auto simp: opsNormOK_def opsOf_addOperation split: if_splits)

lemma methods_normOK:
  "collectMethodOperations rt spec p methods m = Inr m' \<Longrightarrow> opsNormOK rt m \<Longrightarrow> opsNormOK rt m'"
proof (induction methods arbitrary: m)
  case Nil
  then show ?case by simp
next
  case (Cons a methods)
  obtain meth op where a: "a = (meth, op)" by (cases a)
  show ?case
  proof (cases op)
    case None
    with Cons a show ?thesis by simp
  next
    case (Some o')
    with Cons.prems a obtain oi where oi: "openAPIOperationInfo spec p (ToUpper rt meth) o' = Inr oi"
      "collectMethodOperations rt spec p methods (addOperation rt m oi) = Inr m'"
      by (auto split: sum.splits)
    from Cons.IH [OF oi(2)] Cons.prems(2) show ?thesis
      by (simp add: opsNormOK_add)
  qed
qed

lemma paths_normOK:
  "collectPathOperations rt spec paths m = Inr m' \<Longrightarrow> opsNormOK rt m \<Longrightarrow> opsNormOK rt m'"
proof (induction paths arbitrary: m)
  case Nil
  then show ?case by simp
next
  case (Cons a paths)
  obtain p methods where a: "a = (p, methods)" by (cases a)
  with Cons.prems obtain m1 where m1: "collectMethodOperations rt spec p methods m = Inr m1"
    "collectPathOperations rt spec paths m1 = Inr m'"
    by (auto split: sum.splits)
  from methods_normOK [OF m1(1) Cons.prems(2)] Cons.IH [OF m1(2)] show ?case
    by simp
qed

lemma methods_contains:
  "collectMethodOperations rt spec p methods m = Inr m' \<Longrightarrow>
   (\<forall>n. set (opsOf m n) \<subseteq> set (opsOf m' n)) \<and>
   (\<forall>meth op oi. (meth, Some op) \<in> set methods \<and>
        openAPIOperationInfo spec p (ToUpper rt meth) op = Inr oi \<and> normOf rt oi \<noteq> [] \<longrightarrow>
        oi \<in> set (opsOf m' (normOf rt oi)))"
proof (induction methods arbitrary: m)
  case Nil
  then show ?case by simp
next
  case (Cons a methods)
  obtain meth op where a: "a = (meth, op)" by (cases a)
  show ?case
  proof (cases op)
    case None
    with Cons.prems a have "collectMethodOperations rt spec p methods m = Inr m'"
      by simp
    from Cons.IH [OF this] None a show ?thesis
      by auto
  next
    case (Some o')
    with Cons.prems a obtain oi where oi: "openAPIOperationInfo spec p (ToUpper rt meth) o' = Inr oi"
      "collectMethodOperations rt spec p methods (addOperation rt m oi) = Inr m'"
      by (auto split: sum.splits)
    note ih = Cons.IH [OF oi(2)]
    have sub: "\<forall>n. set (opsOf m n) \<subseteq> set (opsOf (addOperation rt m oi) n)"
      by (auto simp: opsOf_addOperation)
    have here: "normOf rt oi \<noteq> [] \<longrightarrow> oi \<in> set (opsOf (addOperation rt m oi) (normOf rt oi))"
      by (simp add: opsOf_addOperation)
    from ih sub have 1: "\<forall>n. set (opsOf m n) \<subseteq> set (opsOf m' n)"
      by blast
    have 2: "\<forall>meth' op' oi'. (meth', Some op') \<in> set (a # methods) \<and>
        openAPIOperationInfo spec p (ToUpper rt meth') op' = Inr oi' \<and> normOf rt oi' \<noteq> [] \<longrightarrow>
        oi' \<in> set (opsOf m' (normOf rt oi'))"
    proof (intro allI impI)
      fix meth' op' oi'
      assume h: "(meth', Some op') \<in> set (a # methods) \<and>
        openAPIOperationInfo spec p (ToUpper rt meth') op' = Inr oi' \<and> normOf rt oi' \<noteq> []"
      show "oi' \<in> set (opsOf m' (normOf rt oi'))"
      proof (cases "(meth', Some op') = a")
        case True
        with a Some oi(1) h have "oi' = oi" by simp
        with here h ih show ?thesis by blast
      next
        case False
        with h have "(meth', Some op') \<in> set methods" by simp
        with ih h show ?thesis by blast
      qed
    qed
    from 1 2 show ?thesis by blast
  qed
qed

lemma paths_contains:
  "collectPathOperations rt spec paths m = Inr m' \<Longrightarrow>
   (\<forall>n. set (opsOf m n) \<subseteq> set (opsOf m' n)) \<and>
   (\<forall>p methods meth op oi. (p, methods) \<in> set paths \<and> (meth, Some op) \<in> set methods \<and>
        openAPIOperationInfo spec p (ToUpper rt meth) op = Inr oi \<and> normOf rt oi \<noteq> [] \<longrightarrow>
        oi \<in> set (opsOf m' (normOf rt oi)))"
proof (induction paths arbitrary: m)
  case Nil
  then show ?case by simp
next
  case (Cons a paths)
  obtain p0 methods0 where a: "a = (p0, methods0)" by (cases a)
  with Cons.prems obtain m1 where m1: "collectMethodOperations rt spec p0 methods0 m = Inr m1"
    "collectPathOperations rt spec paths m1 = Inr m'"
    by (auto split: sum.splits)
  note ih = Cons.IH [OF m1(2)]
  note mc = methods_contains [OF m1(1)]
  from ih mc have 1: "\<forall>n. set (opsOf m n) \<subseteq> set (opsOf m' n)"
    by blast
  have 2: "\<forall>p methods meth op oi. (p, methods) \<in> set (a # paths) \<and> (meth, Some op) \<in> set methods \<and>
        openAPIOperationInfo spec p (ToUpper rt meth) op = Inr oi \<and> normOf rt oi \<noteq> [] \<longrightarrow>
        oi \<in> set (opsOf m' (normOf rt oi))"
  proof (intro allI impI)
    fix p methods meth op oi
    assume h: "(p, methods) \<in> set (a # paths) \<and> (meth, Some op) \<in> set methods \<and>
        openAPIOperationInfo spec p (ToUpper rt meth) op = Inr oi \<and> normOf rt oi \<noteq> []"
    show "oi \<in> set (opsOf m' (normOf rt oi))"
    proof (cases "(p, methods) = a")
      case True
      with a h mc have "oi \<in> set (opsOf m1 (normOf rt oi))" by blast
      with ih show ?thesis by blast
    next
      case False
      with h have "(p, methods) \<in> set paths" by simp
      with ih h show ?thesis by blast
    qed
  qed
  from 1 2 show ?case by blast
qed

lemma putSchema_appends: "\<exists>k. putSchema out meta = out @ [(k, meta)]"
  using putSchema_loop_spec [of out meta "tm_StructName meta" "tm_StructName meta" 2]
  unfolding putSchema_def by blast

lemma toTable_fields:
  "openAPISchemaToTableMetadata spec name schema = Inr meta \<Longrightarrow>
   tm_Operations meta = [] \<and> tm_NormalizedName meta = normalizeEntityName name \<and>
   tm_StructName meta = name"
  by (auto simp: openAPISchemaToTableMetadata_def Let_def split: sum.splits)

lemma schemas_fromComponents:
  "collectComponentSchemas spec schemas out = Inr out' \<Longrightarrow>
   \<forall>m \<in> snd ` set out. fromComponents all m \<Longrightarrow> set schemas \<subseteq> set all \<Longrightarrow>
   \<forall>m \<in> snd ` set out'. fromComponents all m"
proof (induction schemas arbitrary: out)
  case Nil
  then show ?case by simp
next
  case (Cons a schemas)
  obtain name schema where a: "a = (name, schema)" by (cases a)
  with Cons.prems obtain meta where meta: "openAPISchemaToTableMetadata spec name schema = Inr meta"
    "collectComponentSchemas spec schemas (putSchema out meta) = Inr out'"
    by (auto split: sum.splits)
  from Cons.prems(3) a have "name \<in> fst ` set all"
    by force
  with toTable_fields [OF meta(1)] have fm: "fromComponents all meta"
    by (auto simp: fromComponents_def)
  obtain k where "putSchema out meta = out @ [(k, meta)]"
    using putSchema_appends by blast
  with fm Cons.prems(2) have "\<forall>m \<in> snd ` set (putSchema out meta). fromComponents all m"
    by auto
  from Cons.IH [OF meta(2) this] Cons.prems(3) show ?case
    by simp
qed

lemma parse_parts:
  assumes "parseOpenAPIFile rt spec = Inr out"
  obtains out0 ops where "out = attachOperations ops out0" "opsNormOK rt ops"
    "\<forall>m \<in> snd ` set out0. fromComponents (spec_Schemas spec) m"
    "\<forall>p methods meth op oi. (p, methods) \<in> set (spec_Paths spec) \<and> (meth, Some op) \<in> set methods \<and>
        openAPIOperationInfo spec p (ToUpper rt meth) op = Inr oi \<and> normOf rt oi \<noteq> [] \<longrightarrow>
        oi \<in> set (opsOf ops (normOf rt oi))"
proof -
  from assms obtain out0 ops where p: "collectComponentSchemas spec (spec_Schemas spec) [] = Inr out0"
    "collectPathOperations rt spec (spec_Paths spec) Map.empty = Inr ops"
    "out = attachOperations ops out0"
    by (auto simp: parseOpenAPIFile_def split: sum.splits)
  have 1: "opsNormOK rt ops"
    using paths_normOK [OF p(2) opsNormOK_empty] .
  have 2: "\<forall>m \<in> snd ` set out0. fromComponents (spec_Schemas spec) m"
    using schemas_fromComponents [OF p(1), of "spec_Schemas spec"] by simp
  from that [OF p(3) 1 2] paths_contains [OF p(2)] show ?thesis
    by blast
qed

lemma attach_member:
  "(k, m) \<in> set (attachOperations ops out0) \<Longrightarrow>
   \<exists>m0. (k, m0) \<in> set out0 \<and> tm_NormalizedName m = tm_NormalizedName m0 \<and>
        tm_StructName m = tm_StructName m0 \<and>
        tm_Operations m = tm_Operations m0 @ opsOf ops (tm_NormalizedName m0)"
  by (auto simp: attachOperations_def opsOf_def split: option.splits)

lemma parse_member:
  assumes "parseOpenAPIFile rt spec = Inr out" and "(k, m) \<in> set out"
  shows "(\<forall>oi \<in> set (tm_Operations m). normOf rt oi = tm_NormalizedName m) \<and>
         (\<exists>name \<in> fst ` set (spec_Schemas spec). tm_NormalizedName m = normalizeEntityName name \<and>
             tm_StructName m = name) \<and>
         (\<forall>p methods meth op oi. (p, methods) \<in> set (spec_Paths spec) \<and>
             (meth, Some op) \<in> set methods \<and>
             openAPIOperationInfo spec p (ToUpper rt meth) op = Inr oi \<and> normOf rt oi \<noteq> [] \<and>
             normOf rt oi = tm_NormalizedName m \<longrightarrow> oi \<in> set (tm_Operations m))"
proof -
  from assms(1) obtain out0 ops where p: "out = attachOperations ops out0" "opsNormOK rt ops"
    "\<forall>m \<in> snd ` set out0. fromComponents (spec_Schemas spec) m"
    "\<forall>p methods meth op oi. (p, methods) \<in> set (spec_Paths spec) \<and> (meth, Some op) \<in> set methods \<and>
        openAPIOperationInfo spec p (ToUpper rt meth) op = Inr oi \<and> normOf rt oi \<noteq> [] \<longrightarrow>
        oi \<in> set (opsOf ops (normOf rt oi))"
    by (rule parse_parts)
  from attach_member assms(2) p(1) obtain m0 where m0: "(k, m0) \<in> set out0"
    "tm_NormalizedName m = tm_NormalizedName m0" "tm_StructName m = tm_StructName m0"
    "tm_Operations m = tm_Operations m0 @ opsOf ops (tm_NormalizedName m0)"
    by blast
  from m0(1) p(3) have fc: "fromComponents (spec_Schemas spec) m0"
    by force
  then have o: "tm_Operations m = opsOf ops (tm_NormalizedName m)"
    using m0 by (simp add: fromComponents_def)
  have a: "\<forall>oi \<in> set (tm_Operations m). normOf rt oi = tm_NormalizedName m"
    using p(2) o by (simp add: opsNormOK_def)
  have b: "\<exists>name \<in> fst ` set (spec_Schemas spec). tm_NormalizedName m = normalizeEntityName name \<and>
             tm_StructName m = name"
    using fc m0 by (simp add: fromComponents_def)
  have c: "\<forall>p methods meth op oi. (p, methods) \<in> set (spec_Paths spec) \<and>
             (meth, Some op) \<in> set methods \<and>
             openAPIOperationInfo spec p (ToUpper rt meth) op = Inr oi \<and> normOf rt oi \<noteq> [] \<and>
             normOf rt oi = tm_NormalizedName m \<longrightarrow> oi \<in> set (tm_Operations m)"
    using p(4) o by metis
  from a b c show ?thesis by blast
qed

lemma parse_userSpec:
  "parseOpenAPIFile rt userSpec =
     Inr [(''User'', exampleUserMeta), (''CreateUserReq'', exampleCreateUserReqMeta)]"
  by code_simp

lemma parse_userOnlySpec: "parseOpenAPIFile rt userOnlySpec = Inr [(''User'', exampleUserMeta)]"
  by code_simp

lemma info_createUser:
  "openAPIOperationInfo spec ''/users'' (ToUpper rt ''post'') createUserOperation = Inr exampleCreateUserOp"
  by code_simp

lemma norm_CreateUserReq: "normalizeEntityName ''CreateUserReq'' = ''CreateUser''"
  by (simp add: normalize_eval)

text \<open>
  C3 (as stated): the operation \<open>POST /users\<close> with request schema \<open>CreateUserReq\<close>
  gets the normalized entity name \<open>User\<close> and is attached to the \<open>User\<close> record.  It
  gets the name \<open>CreateUser\<close>: only the suffix \<open>Req\<close> is stripped, \<open>Create\<close> being a
  suffix rule.  In a document with the schemas \<open>User\<close> and \<open>CreateUserReq\<close> the
  operation is attached to the record of \<open>CreateUserReq\<close>, and \<open>User\<close> gets none.
\<close>

theorem createUserReq_operation_example:
  "\<forall>rt.
     normalizeEntityName (inferEntityNameForOperation rt exampleCreateUserOp) = ''CreateUser'' \<and>
     ''CreateUser'' \<noteq> ''User'' \<and>
     parseOpenAPIFile rt userSpec =
       Inr [(''User'', exampleUserMeta), (''CreateUserReq'', exampleCreateUserReqMeta)] \<and>
     tm_Operations exampleUserMeta = [] \<and>
     tm_Operations exampleCreateUserReqMeta = [exampleCreateUserOp]"
proof
  fix rt
  show "normalizeEntityName (inferEntityNameForOperation rt exampleCreateUserOp) = ''CreateUser'' \<and>
     ''CreateUser'' \<noteq> ''User'' \<and>
     parseOpenAPIFile rt userSpec =
       Inr [(''User'', exampleUserMeta), (''CreateUserReq'', exampleCreateUserReqMeta)] \<and>
     tm_Operations exampleUserMeta = [] \<and>
     tm_Operations exampleCreateUserReqMeta = [exampleCreateUserOp]"
    by code_simp
qed

text \<open>
  C3 (amended): an operation whose resolved request schema name is \<open>CreateUserReq\<close> is
  assigned the normalized entity name \<open>CreateUser\<close>; in the result of
  \<open>parseOpenAPIFile\<close> it is attached only to records whose normalized name is
  \<open>CreateUser\<close>, and every operation of the document with that request schema is
  attached to every such record.
\<close>

theorem createUserReq_normalizes_to_CreateUser:
  "(op_RequestSchema oi = ''CreateUserReq'' \<longrightarrow>
      normalizeEntityName (inferEntityNameForOperation rt oi) = ''CreateUser'') \<and>
   (parseOpenAPIFile rt spec = Inr out \<and> (k, m) \<in> set out \<and>
      op_RequestSchema oi = ''CreateUserReq'' \<and> oi \<in> set (tm_Operations m) \<longrightarrow>
      tm_NormalizedName m = ''CreateUser'') \<and>
   (parseOpenAPIFile rt spec = Inr out \<and> (k, m) \<in> set out \<and>
      tm_NormalizedName m = ''CreateUser'' \<and>
      (p, methods) \<in> set (spec_Paths spec) \<and> (meth, Some op) \<in> set methods \<and>
      openAPIOperationInfo spec p (ToUpper rt meth) op = Inr oi \<and>
      op_RequestSchema oi = ''CreateUserReq'' \<longrightarrow>
      oi \<in> set (tm_Operations m))"
proof -
  have n: "op_RequestSchema oi = ''CreateUserReq'' \<Longrightarrow> normOf rt oi = ''CreateUser''"
    by (simp add: normOf_def inferEntityNameForOperation_def norm_CreateUserReq)
  have a: "op_RequestSchema oi = ''CreateUserReq'' \<longrightarrow>
      normalizeEntityName (inferEntityNameForOperation rt oi) = ''CreateUser''"
    using n by (simp add: normOf_def)
  have b: "parseOpenAPIFile rt spec = Inr out \<and> (k, m) \<in> set out \<and>
      op_RequestSchema oi = ''CreateUserReq'' \<and> oi \<in> set (tm_Operations m) \<longrightarrow>
      tm_NormalizedName m = ''CreateUser''"
  proof
    assume h: "parseOpenAPIFile rt spec = Inr out \<and> (k, m) \<in> set out \<and>
      op_RequestSchema oi = ''CreateUserReq'' \<and> oi \<in> set (tm_Operations m)"
    then have "\<forall>oi \<in> set (tm_Operations m). normOf rt oi = tm_NormalizedName m"
      using parse_member [of rt spec out k m] by blast
    with h n show "tm_NormalizedName m = ''CreateUser''"
      by force
  qed
  have c: "parseOpenAPIFile rt spec = Inr out \<and> (k, m) \<in> set out \<and>
      tm_NormalizedName m = ''CreateUser'' \<and>
      (p, methods) \<in> set (spec_Paths spec) \<and> (meth, Some op) \<in> set methods \<and>
      openAPIOperationInfo spec p (ToUpper rt meth) op = Inr oi \<and>
      op_RequestSchema oi = ''CreateUserReq'' \<longrightarrow>
      oi \<in> set (tm_Operations m)"
  proof
    assume h: "parseOpenAPIFile rt spec = Inr out \<and> (k, m) \<in> set out \<and>
      tm_NormalizedName m = ''CreateUser'' \<and>
      (p, methods) \<in> set (spec_Paths spec) \<and> (meth, Some op) \<in> set methods \<and>
      openAPIOperationInfo spec p (ToUpper rt meth) op = Inr oi \<and>
      op_RequestSchema oi = ''CreateUserReq''"
    then have no: "normOf rt oi = ''CreateUser''"
      using n by blast
    from h have "\<forall>p methods meth op oi. (p, methods) \<in> set (spec_Paths spec) \<and>
             (meth, Some op) \<in> set methods \<and>
             openAPIOperationInfo spec p (ToUpper rt meth) op = Inr oi \<and> normOf rt oi \<noteq> [] \<and>
             normOf rt oi = tm_NormalizedName m \<longrightarrow> oi \<in> set (tm_Operations m)"
      using parse_member [of rt spec out k m] by blast
    from this [rule_format, of p methods meth op oi] h no
    show "oi \<in> set (tm_Operations m)"
      by simp
  qed
  from a b c show ?thesis by blast
qed

theorem createUserReq_normalizes_to_CreateUser_witness:
  "\<forall>rt.
     normalizeEntityName (inferEntityNameForOperation rt exampleCreateUserOp) = ''CreateUser'' \<and>
     exampleCreateUserOp \<in> set (tm_Operations exampleCreateUserReqMeta) \<and>
     exampleCreateUserOp \<notin> set (tm_Operations exampleUserMeta)"
proof
  fix rt
  note t = createUserReq_normalizes_to_CreateUser
    [of exampleCreateUserOp rt userSpec
        "[(''User'', exampleUserMeta), (''CreateUserReq'', exampleCreateUserReqMeta)]"
        "''CreateUserReq''" exampleCreateUserReqMeta "''/users''"
        "[(''post'', Some createUserOperation)]" "''post''" createUserOperation]
  have r: "op_RequestSchema exampleCreateUserOp = ''CreateUserReq''"
    by (simp add: exampleCreateUserOp_def)
  from t r have a: "normalizeEntityName (inferEntityNameForOperation rt exampleCreateUserOp) = ''CreateUser''"
    by blast
  have h: "(''/users'', [(''post'', Some createUserOperation)]) \<in> set (spec_Paths userSpec)"
    "tm_NormalizedName exampleCreateUserReqMeta = ''CreateUser''"
    by (simp_all add: userSpec_def exampleCreateUserReqMeta_def)
  from t r h parse_userSpec [of rt] info_createUser [of userSpec rt]
  have b: "exampleCreateUserOp \<in> set (tm_Operations exampleCreateUserReqMeta)"
    by simp
  have c: "exampleCreateUserOp \<notin> set (tm_Operations exampleUserMeta)"
    by (simp add: exampleUserMeta_def)
  from a b c
  show "normalizeEntityName (inferEntityNameForOperation rt exampleCreateUserOp) = ''CreateUser'' \<and>
     exampleCreateUserOp \<in> set (tm_Operations exampleCreateUserReqMeta) \<and>
     exampleCreateUserOp \<notin> set (tm_Operations exampleUserMeta)"
    by blast
qed

lemma schemas_succeed:
  "\<forall>(name, schema) \<in> set schemas. \<exists>meta. openAPISchemaToTableMetadata spec name schema = Inr meta \<Longrightarrow>
   \<exists>out'. collectComponentSchemas spec schemas out = Inr out'"
proof (induction schemas arbitrary: out)
  case Nil
  then show ?case by simp
next
  case (Cons a schemas)
  obtain name schema where a: "a = (name, schema)" by (cases a)
  with Cons.prems obtain meta where meta: "openAPISchemaToTableMetadata spec name schema = Inr meta"
    by auto
  from Cons.prems have "\<forall>(name, schema) \<in> set schemas.
      \<exists>meta. openAPISchemaToTableMetadata spec name schema = Inr meta"
    by simp
  from Cons.IH [OF this, of "putSchema out meta"] a meta show ?case
    by simp
qed

lemma methods_succeed:
  "\<forall>meth op. (meth, Some op) \<in> set methods \<longrightarrow>
      (\<exists>oi. openAPIOperationInfo spec p (ToUpper rt meth) op = Inr oi) \<Longrightarrow>
   \<exists>m'. collectMethodOperations rt spec p methods m = Inr m'"
proof (induction methods arbitrary: m)
  case Nil
  then show ?case by simp
next
  case (Cons a methods)
  obtain meth op where a: "a = (meth, op)" by (cases a)
  from Cons.prems have rest: "\<forall>meth op. (meth, Some op) \<in> set methods \<longrightarrow>
      (\<exists>oi. openAPIOperationInfo spec p (ToUpper rt meth) op = Inr oi)"
    by simp
  show ?case
  proof (cases op)
    case None
    with Cons.IH [OF rest, of m] a show ?thesis by simp
  next
    case (Some o')
    with Cons.prems a obtain oi where oi: "openAPIOperationInfo spec p (ToUpper rt meth) o' = Inr oi"
      by auto
    with Cons.IH [OF rest, of "addOperation rt m oi"] a Some show ?thesis by simp
  qed
qed

lemma paths_succeed:
  "\<forall>p methods meth op. (p, methods) \<in> set paths \<and> (meth, Some op) \<in> set methods \<longrightarrow>
      (\<exists>oi. openAPIOperationInfo spec p (ToUpper rt meth) op = Inr oi) \<Longrightarrow>
   \<exists>m'. collectPathOperations rt spec paths m = Inr m'"
proof (induction paths arbitrary: m)
  case Nil
  then show ?case by simp
next
  case (Cons a paths)
  obtain p methods where a: "a = (p, methods)" by (cases a)
  have "\<forall>meth op. (meth, Some op) \<in> set methods \<longrightarrow>
      (\<exists>oi. openAPIOperationInfo spec p (ToUpper rt meth) op = Inr oi)"
  proof (intro allI impI)
    fix meth op
    assume "(meth, Some op) \<in> set methods"
    with Cons.prems [rule_format, of p methods meth op] a
    show "\<exists>oi. openAPIOperationInfo spec p (ToUpper rt meth) op = Inr oi"
      by simp
  qed
  from methods_succeed [OF this, of m] obtain m1 where
    m1: "collectMethodOperations rt spec p methods m = Inr m1"
    by blast
  have "\<forall>p methods meth op. (p, methods) \<in> set paths \<and> (meth, Some op) \<in> set methods \<longrightarrow>
      (\<exists>oi. openAPIOperationInfo spec p (ToUpper rt meth) op = Inr oi)"
  proof (intro allI impI)
    fix p' methods' meth op
    assume "(p', methods') \<in> set paths \<and> (meth, Some op) \<in> set methods'"
    with Cons.prems [rule_format, of p' methods' meth op]
    show "\<exists>oi. openAPIOperationInfo spec p' (ToUpper rt meth) op = Inr oi"
      by simp
  qed
  from Cons.IH [OF this, of m1] a m1 show ?case
    by simp
qed

lemma parse_succeeds:
  assumes "\<forall>(name, schema) \<in> set (spec_Schemas spec).
             \<exists>meta. openAPISchemaToTableMetadata spec name schema = Inr meta"
    and "\<forall>p methods meth op. (p, methods) \<in> set (spec_Paths spec) \<and> (meth, Some op) \<in> set methods \<longrightarrow>
             (\<exists>oi. openAPIOperationInfo spec p (ToUpper rt meth) op = Inr oi)"
  shows "\<exists>out. parseOpenAPIFile rt spec = Inr out"
proof -
  from schemas_succeed [OF assms(1), of "[]"] obtain out0 where
    "collectComponentSchemas spec (spec_Schemas spec) [] = Inr out0"
    by blast
  moreover from paths_succeed [OF assms(2), of Map.empty] obtain ops where
    "collectPathOperations rt spec (spec_Paths spec) Map.empty = Inr ops"
    by blast
  ultimately show ?thesis
    by (simp add: parseOpenAPIFile_def)
qed

text \<open>
  The path heuristic trims white space outside ASCII too: the segment \<open>users\<close>
  followed by a no-break space gives the entity \<open>User\<close>.
\<close>

lemma entityFromPathHeuristic_no_break_space:
  "entityFromPathHeuristic rt (''/users'' @ [CHR 0xC2, CHR 0xA0]) = ''User''"
  by code_simp

lemma toTable_userOnlySpec:
  "openAPISchemaToTableMetadata userOnlySpec ''User'' (Some (objectSchema [(''name'', stringProperty)]))
     = Inr exampleUserMeta"
  by code_simp

text \<open>
  C10: \<open>parseOpenAPIFile\<close> fails only where the conversion of a component schema or
  the extraction of an operation fails (a nil dereference), whether or not the
  operations match a schema.  In every other document it returns its map, and an
  operation whose normalized inferred entity name is the normalized name of no component
  schema is attached to no record of that map.  (The function writes no diagnostic: it
  has no output but its two results.)
\<close>

theorem unmatched_operation_dropped:
  assumes "\<forall>(name, schema) \<in> set (spec_Schemas spec).
             \<exists>meta. openAPISchemaToTableMetadata spec name schema = Inr meta"
    and "\<forall>p methods meth op. (p, methods) \<in> set (spec_Paths spec) \<and> (meth, Some op) \<in> set methods \<longrightarrow>
             (\<exists>oi'. openAPIOperationInfo spec p (ToUpper rt meth) op = Inr oi')"
    and "\<forall>name \<in> fst ` set (spec_Schemas spec).
           normalizeEntityName name \<noteq> normalizeEntityName (inferEntityNameForOperation rt oi)"
  shows "\<exists>out. parseOpenAPIFile rt spec = Inr out \<and>
           (\<forall>(k, m) \<in> set out. oi \<notin> set (tm_Operations m))"
proof -
  from parse_succeeds [OF assms(1,2)] obtain out where out: "parseOpenAPIFile rt spec = Inr out"
    by blast
  have "\<forall>(k, m) \<in> set out. oi \<notin> set (tm_Operations m)"
  proof (intro ballI, clarify)
    fix k m
    assume km: "(k, m) \<in> set out" and oi: "oi \<in> set (tm_Operations m)"
    from parse_member [OF out km] oi
    have "normOf rt oi = tm_NormalizedName m"
      and "\<exists>name \<in> fst ` set (spec_Schemas spec). tm_NormalizedName m = normalizeEntityName name \<and>
               tm_StructName m = name"
      by blast+
    with assms(3) show False
      by (auto simp: normOf_def)
  qed
  with out show ?thesis by blast
qed

text \<open>
  A document with the only schema \<open>User\<close>: the operation \<open>POST /users\<close> with request
  schema \<open>CreateUserReq\<close> is extracted, the map is returned, and the operation appears
  nowhere in it.
\<close>

theorem unmatched_operation_dropped_witness:
  "\<forall>rt.
     parseOpenAPIFile rt userOnlySpec = Inr [(''User'', exampleUserMeta)] \<and>
     openAPIOperationInfo userOnlySpec ''/users'' (ToUpper rt ''post'') createUserOperation
       = Inr exampleCreateUserOp \<and>
     exampleCreateUserOp \<notin> set (concat (map (\<lambda>(k, m). tm_Operations m) [(''User'', exampleUserMeta)]))"
proof
  fix rt
  have sch: "spec_Schemas userOnlySpec = [(''User'', Some (objectSchema [(''name'', stringProperty)]))]"
    and pth: "spec_Paths userOnlySpec = [(''/users'', [(''post'', Some createUserOperation)])]"
    by (simp_all add: userOnlySpec_def)
  have h1: "\<forall>(name, schema) \<in> set (spec_Schemas userOnlySpec).
      \<exists>meta. openAPISchemaToTableMetadata userOnlySpec name schema = Inr meta"
    unfolding sch using toTable_userOnlySpec by simp
  have h2: "\<forall>p methods meth op. (p, methods) \<in> set (spec_Paths userOnlySpec) \<and>
      (meth, Some op) \<in> set methods \<longrightarrow>
      (\<exists>oi'. openAPIOperationInfo userOnlySpec p (ToUpper rt meth) op = Inr oi')"
    unfolding pth using info_createUser [of userOnlySpec rt] by auto
  have h3: "\<forall>name \<in> fst ` set (spec_Schemas userOnlySpec).
      normalizeEntityName name \<noteq> normalizeEntityName (inferEntityNameForOperation rt exampleCreateUserOp)"
    unfolding sch
    by (simp add: exampleCreateUserOp_def inferEntityNameForOperation_def normalize_eval)
  from unmatched_operation_dropped [OF h1 h2 h3] obtain out where
    out: "parseOpenAPIFile rt userOnlySpec = Inr out"
      "\<forall>(k, m) \<in> set out. exampleCreateUserOp \<notin> set (tm_Operations m)"
    by blast
  from out(1) parse_userOnlySpec [of rt] have "out = [(''User'', exampleUserMeta)]"
    by simp
  with out(2)
  have "exampleCreateUserOp \<notin> set (concat (map (\<lambda>(k, m). tm_Operations m) [(''User'', exampleUserMeta)]))"
    by simp
  with parse_userOnlySpec [of rt] info_createUser [of userOnlySpec rt]
  show "parseOpenAPIFile rt userOnlySpec = Inr [(''User'', exampleUserMeta)] \<and>
     openAPIOperationInfo userOnlySpec ''/users'' (ToUpper rt ''post'') createUserOperation
       = Inr exampleCreateUserOp \<and>
     exampleCreateUserOp \<notin> set (concat (map (\<lambda>(k, m). tm_Operations m) [(''User'', exampleUserMeta)]))"
    by blast
qed

end
